theory Spec2Isabelle
  imports Complex_Main "HOL-Library.Char_ord" "HOL-Library.List_Lexorder" "HOL-Library.Multiset"
begin

section \<open>Exceptions\<close>

text \<open>Each exception class that the modelled code raises or lets through, with its
  message.\<close>

datatype error =
    VideoNotFoundError string
  | VideoAlreadyExistsError string
  | AmbiguousVideoError string
  | ExtractionError string
  | LLMError string
  | RuntimeError string
  | ValueError string
  | OtherException string

section \<open>Python strings\<close>

text \<open>
  A Python \<open>str\<close> is modelled as a \<open>string\<close> whose characters are the code points
  U+0000 to U+00FF. On these the definitions below are the Python builtins the program
  calls (\<open>str.isdigit\<close>, \<open>int\<close>, \<open>str\<close>, \<open>str.lower\<close>, \<open>in\<close>, \<open>str.strip\<close>,
  \<open>str.join\<close>), non-ASCII characters included. A string with a code point above U+00FF
  has no counterpart in the model.
\<close>

definition is_ascii_digit :: "char \<Rightarrow> bool" where
  "is_ascii_digit c = (48 \<le> (of_char c :: nat) \<and> (of_char c :: nat) \<le> 57)"

text \<open>The characters below U+0100 on which \<open>str.isdigit\<close> is true and that are no
  decimal digits: the superscripts two, three and one.\<close>

definition is_superscript_digit :: "char \<Rightarrow> bool" where
  "is_superscript_digit c = ((of_char c :: nat) = 178 \<or> (of_char c :: nat) = 179
                             \<or> (of_char c :: nat) = 185)"

text \<open>\<open>query.isdigit()\<close>: a non-empty string all of whose characters are digits.\<close>

definition isdigit :: "string \<Rightarrow> bool" where
  "isdigit s = (s \<noteq> [] \<and> list_all (\<lambda>c. is_ascii_digit c \<or> is_superscript_digit c) s)"

definition digit_val :: "char \<Rightarrow> int" where
  "digit_val c = int (of_char c) - 48"

text \<open>The value of a string of decimal digits (leading zeros allowed).\<close>

definition decimal_value :: "string \<Rightarrow> int" where
  "decimal_value s = foldl (\<lambda>a c. 10 * a + digit_val c) 0 s"

definition digit_char :: "nat \<Rightarrow> char" where
  "digit_char d = char_of (48 + d)"

text \<open>\<open>str(n)\<close> and the \<open>{n}\<close> of an f-string for a non-negative integer.\<close>

fun str_nat :: "nat \<Rightarrow> string" where
  "str_nat n = (if n < 10 then [digit_char n] else str_nat (n div 10) @ [digit_char (n mod 10)])"

declare str_nat.simps [simp del]

text \<open>The default of \<open>sys.get_int_max_str_digits()\<close>.\<close>

definition MAX_STR_DIGITS :: nat where
  "MAX_STR_DIGITS = 4300"

definition exceeds_limit_msg :: "nat \<Rightarrow> string" where
  "exceeds_limit_msg digits =
     ''Exceeds the limit (4300 digits) for integer string conversion: value has ''
     @ str_nat digits @ '' digits; use sys.set_int_max_str_digits() to increase the limit''"

definition invalid_literal_msg :: "string \<Rightarrow> string" where
  "invalid_literal_msg s =
     ''invalid literal for int() with base 10: '' @ [CHR 0x27] @ s @ [CHR 0x27]"

text \<open>
  \<open>int(query)\<close> for a string on which \<open>isdigit\<close> is true, the only strings the program
  passes to it. \<open>int\<close> counts the decimal digits the string starts with and raises
  \<open>ValueError\<close> when they are more than the limit; otherwise it gives the unbounded
  value when every character is a decimal digit, and raises \<open>ValueError\<close> when a
  superscript is among them.
\<close>

definition int_of_str :: "string \<Rightarrow> error + int" where
  "int_of_str s =
     (let digits = length (takeWhile is_ascii_digit s)
      in if digits > MAX_STR_DIGITS then Inl (ValueError (exceeds_limit_msg digits))
         else if list_all is_ascii_digit s then Inr (decimal_value s)
         else Inl (ValueError (invalid_literal_msg s)))"

text \<open>\<open>str.lower\<close>: the ASCII capitals and the capitals U+00C0 to U+00DE, without the
  multiplication sign U+00D7, go to the letter 32 places up; nothing else below U+0100
  changes.\<close>

definition lower_char :: "char \<Rightarrow> char" where
  "lower_char c =
     (if (65 \<le> (of_char c :: nat) \<and> (of_char c :: nat) \<le> 90)
         \<or> (192 \<le> (of_char c :: nat) \<and> (of_char c :: nat) \<le> 214)
         \<or> (216 \<le> (of_char c :: nat) \<and> (of_char c :: nat) \<le> 222)
      then char_of ((of_char c :: nat) + 32) else c)"

definition lower :: "string \<Rightarrow> string" where
  "lower s = map lower_char s"

fun starts_with :: "string \<Rightarrow> string \<Rightarrow> bool" where
  "starts_with s [] = True"
| "starts_with [] (q # qs) = False"
| "starts_with (c # cs) (q # qs) = (c = q \<and> starts_with cs qs)"

text \<open>\<open>q in s\<close> on strings: \<open>q\<close> occurs in \<open>s\<close> as a contiguous run (the empty string
  occurs in every string).\<close>

fun contains :: "string \<Rightarrow> string \<Rightarrow> bool" where
  "contains [] q = (q = [])"
| "contains (c # cs) q = (starts_with (c # cs) q \<or> contains cs q)"

text \<open>\<open>str.isspace\<close> on one character: U+0009 to U+000D, U+001C to U+0020, the next-line
  control U+0085 and the no-break space U+00A0.\<close>

definition isspace :: "char \<Rightarrow> bool" where
  "isspace c = ((9 \<le> (of_char c :: nat) \<and> (of_char c :: nat) \<le> 13)
              \<or> (28 \<le> (of_char c :: nat) \<and> (of_char c :: nat) \<le> 32)
              \<or> (of_char c :: nat) = 133 \<or> (of_char c :: nat) = 160)"

text \<open>\<open>s.strip()\<close>: leading and trailing whitespace removed.\<close>

definition strip :: "string \<Rightarrow> string" where
  "strip s = rev (dropWhile isspace (rev (dropWhile isspace s)))"

text \<open>\<open>sep.join(parts)\<close>.\<close>

fun join :: "string \<Rightarrow> string list \<Rightarrow> string" where
  "join sep [] = []"
| "join sep [p] = p"
| "join sep (p # ps) = p @ sep @ join sep ps"

text \<open>\<open>enumerate(xs)\<close> is \<open>enumerate 0 xs\<close> of the list library.\<close>

section \<open>Domain models (models.py)\<close>

text \<open>
  A Python float is the real number it denotes, an infinity or a NaN. Float addition
  rounds its result, so it is not the addition of the reals: wherever the program adds
  floats, the operation is a parameter (\<open>float_add\<close>) about which nothing is assumed.
  A \<open>datetime\<close> is carried as its ISO-8601 text (\<open>added_at.isoformat()\<close>), which is the
  form the store keeps and orders by.
\<close>

datatype pyfloat = Finite real | PosInf | NegInf | NaN

type_synonym float_op = "pyfloat \<Rightarrow> pyfloat \<Rightarrow> pyfloat"

record TranscriptSegment =
  seg_start :: pyfloat
  seg_duration :: pyfloat
  seg_text :: string

text \<open>The computed field \<open>end\<close>: \<open>self.start + self.duration\<close>.\<close>

definition seg_end :: "float_op \<Rightarrow> TranscriptSegment \<Rightarrow> pyfloat" where
  "seg_end float_add seg = float_add (seg_start seg) (seg_duration seg)"

record Chapter =
  ch_title :: string
  ch_start :: pyfloat

record Video =
  video_id :: string
  title :: string
  description :: string
  channel :: string
  duration :: pyfloat
  thumbnail_url :: string
  chapters :: "Chapter list"
  transcript :: "TranscriptSegment list"
  tags :: "string list"
  added_at :: string

section \<open>Entity store (storage/sqlite.py)\<close>

text \<open>
  The \<open>videos\<close> table is the list of its rows in rowid order, which is the order of first
  insertion: an upsert keeps the row where it is, a delete takes it out, and a new row
  goes to the end. A row holds the ten columns of the table, so it has the shape of a
  \<open>Video\<close>. The primary key makes the identifiers of the rows pairwise distinct.
\<close>

type_synonym repository = "Video list"

definition pk_unique :: "repository \<Rightarrow> bool" where
  "pk_unique rp = distinct (map video_id rp)"

text \<open>\<open>exists\<close>: \<open>SELECT 1 FROM videos WHERE video_id = ? LIMIT 1\<close>.\<close>

definition exists_video :: "repository \<Rightarrow> string \<Rightarrow> bool" where
  "exists_video rp vid = (find (\<lambda>r. video_id r = vid) rp \<noteq> None)"

text \<open>\<open>get\<close>: the full row, or \<open>None\<close>.\<close>

definition get :: "repository \<Rightarrow> string \<Rightarrow> Video option" where
  "get rp vid = find (\<lambda>r. video_id r = vid) rp"

text \<open>\<open>save\<close>: \<open>INSERT ... ON CONFLICT(video_id) DO UPDATE SET\<close> every column except
  \<open>video_id\<close> and \<open>added_at\<close>.\<close>

definition on_conflict_update :: "Video \<Rightarrow> Video \<Rightarrow> Video" where
  "on_conflict_update excluded r =
     r\<lparr>title := title excluded, description := description excluded,
       channel := channel excluded, duration := duration excluded,
       thumbnail_url := thumbnail_url excluded, chapters := chapters excluded,
       transcript := transcript excluded, tags := tags excluded\<rparr>"

definition save :: "Video \<Rightarrow> repository \<Rightarrow> repository" where
  "save video rp =
     (if exists_video rp (video_id video)
      then map (\<lambda>r. if video_id r = video_id video then on_conflict_update video r else r) rp
      else rp @ [video])"

text \<open>\<open>delete\<close>: \<open>DELETE FROM videos WHERE video_id = ?\<close>, a no-op when absent.\<close>

definition delete :: "string \<Rightarrow> repository \<Rightarrow> repository" where
  "delete vid rp = filter (\<lambda>r. video_id r \<noteq> vid) rp"

text \<open>\<open>_row_to_video(row, include_transcript=False)\<close>.\<close>

definition metadata_only :: "Video \<Rightarrow> Video" where
  "metadata_only r = r\<lparr>chapters := [], transcript := []\<rparr>"

text \<open>\<open>ORDER BY added_at DESC\<close> compares the stored texts; rows with equal texts, whose
  order SQL leaves open, are kept in rowid order here.\<close>

definition order_by_added_at_desc :: "Video list \<Rightarrow> Video list" where
  "order_by_added_at_desc rows = rev (sort_key added_at (rev rows))"

text \<open>\<open>list_all\<close>: every row, newest first, without transcript and chapters.\<close>

definition list_all_videos :: "repository \<Rightarrow> Video list" where
  "list_all_videos rp = map metadata_only (order_by_added_at_desc rp)"

section \<open>Resolver (service.py, resolve_video)\<close>

definition out_of_range_msg :: "string \<Rightarrow> nat \<Rightarrow> string" where
  "out_of_range_msg query n =
     ''Index '' @ query @ '' out of range. Library has '' @ str_nat n @ '' video(s).''"

definition ambiguous_line :: "nat \<times> Video \<Rightarrow> string" where
  "ambiguous_line iv = ''  '' @ str_nat (fst iv + 1) @ ''. '' @ title (snd iv)"

definition ambiguous_msg :: "string \<Rightarrow> Video list \<Rightarrow> string" where
  "ambiguous_msg query matches =
     ''Multiple videos match '' @ [CHR 0x27] @ query @ [CHR 0x27] @ '':'' @ [CHR 0x0A]
     @ join [CHR 0x0A] (map ambiguous_line (enumerate 0 matches))"

definition substring_match :: "string \<Rightarrow> Video \<Rightarrow> bool" where
  "substring_match q v = (contains (lower (title v)) q \<or> contains (lower (channel v)) q)"

text \<open>The words of the specification for the third tier, to compare with the code:
  the lowercased query is a substring of the lowercased title or of the lowercased
  channel name.\<close>

definition is_substring :: "string \<Rightarrow> string \<Rightarrow> bool" where
  "is_substring q s = (\<exists>before after. s = before @ q @ after)"

definition spec_match :: "string \<Rightarrow> Video \<Rightarrow> bool" where
  "spec_match query v =
     (is_substring (lower query) (lower (title v)) \<or> is_substring (lower query) (lower (channel v)))"

text \<open>The result type is that of the Python: \<open>resolve_video\<close> returns what
  \<open>self._repo.get\<close> returns in tiers 2 and 3, a \<open>Video\<close> or \<open>None\<close>. The second tier
  calls \<open>int(query)\<close> behind the \<open>isdigit\<close> test only, with no handler: a \<open>ValueError\<close>
  of \<open>int\<close> leaves \<open>resolve_video\<close> as it is.\<close>

definition resolve_video :: "repository \<Rightarrow> string \<Rightarrow> error + Video option" where
  "resolve_video rp query =
     (case get rp query of
        Some video \<Rightarrow> Inr (Some video)
      | None \<Rightarrow>
          if isdigit query then
            (let videos = list_all_videos rp
             in case int_of_str query of
                  Inl e \<Rightarrow> Inl e
                | Inr n \<Rightarrow>
                    (let idx = n - 1
                     in if 0 \<le> idx \<and> idx < int (length videos)
                        then Inr (get rp (video_id (videos ! nat idx)))
                        else Inl (VideoNotFoundError (out_of_range_msg query (length videos)))))
          else
            (let videos = list_all_videos rp;
                 q = lower query;
                 matches = filter (substring_match q) videos
             in if length matches = 1 then Inr (get rp (video_id (matches ! 0)))
                else if length matches > 1
                then Inl (AmbiguousVideoError (ambiguous_msg query matches))
                else Inl (VideoNotFoundError (''No video matching: '' @ query))))"

section \<open>Semantic index (storage/vectorstore.py)\<close>

subsection \<open>The engine's collection\<close>

text \<open>
  The ChromaDB collection is the engine behind \<open>ChromaVectorStore\<close>; only the calls the
  store makes are modelled. A collection is the list of its records in insertion order,
  each with its id, its document and the four metadata entries the store writes, and
  the engine's ceiling on the size of one \<open>add\<close>. The three parallel lists that
  \<open>index_video\<close> builds and slices together (documents, metadatas, ids) are carried as
  one list of records.
\<close>

record Fragment =
  frag_id :: string
  document :: string
  meta_video_id :: string
  meta_start :: pyfloat
  meta_end :: pyfloat
  meta_segment_index :: nat

record Collection =
  entries :: "Fragment list"
  max_batch_size :: nat

text \<open>\<open>collection.delete(where={"video_id": vid})\<close>: every record whose metadata names
  \<open>vid\<close> goes; none matching is not an error.\<close>

definition collection_delete :: "string \<Rightarrow> Collection \<Rightarrow> error + Collection" where
  "collection_delete vid c =
     Inr (c\<lparr>entries := filter (\<lambda>f. meta_video_id f \<noteq> vid) (entries c)\<rparr>)"

fun add_new :: "Fragment list \<Rightarrow> Fragment list \<Rightarrow> Fragment list" where
  "add_new es [] = es"
| "add_new es (f # fs) =
     (if frag_id f \<in> set (map frag_id es) then add_new es fs else add_new (es @ [f]) fs)"

text \<open>\<open>collection.add(documents, metadatas, ids)\<close>: the engine refuses an empty batch, a
  batch above its ceiling and a batch that repeats an id; a record whose id the
  collection already holds is left out without an error.\<close>

definition collection_add :: "Fragment list \<Rightarrow> Collection \<Rightarrow> error + Collection" where
  "collection_add batch c =
     (if batch = [] then Inl (OtherException ''ValueError: empty batch'')
      else if length batch > max_batch_size c
      then Inl (OtherException ''ValueError: batch size exceeds maximum batch size'')
      else if \<not> distinct (map frag_id batch) then Inl (OtherException ''DuplicateIDError'')
      else Inr (c\<lparr>entries := add_new (entries c) batch\<rparr>))"

subsection \<open>ChromaVectorStore\<close>

definition BATCH_SIZE :: nat where
  "BATCH_SIZE = 500"

text \<open>\<open>delete_video\<close>: any exception of the engine is swallowed.\<close>

definition delete_video :: "string \<Rightarrow> Collection \<Rightarrow> Collection" where
  "delete_video vid c = (case collection_delete vid c of Inr c' \<Rightarrow> c' | Inl e \<Rightarrow> c)"

definition fragment_key :: "string \<Rightarrow> nat \<Rightarrow> string" where
  "fragment_key vid i = vid @ ''_'' @ str_nat i"

definition make_fragment :: "float_op \<Rightarrow> string \<Rightarrow> nat \<Rightarrow> TranscriptSegment \<Rightarrow> Fragment" where
  "make_fragment float_add vid i seg =
     \<lparr>frag_id = fragment_key vid i, document = strip (seg_text seg), meta_video_id = vid,
      meta_start = seg_start seg, meta_end = seg_end float_add seg, meta_segment_index = i\<rparr>"

text \<open>The first loop of \<open>index_video\<close>: \<open>for i, seg in enumerate(segments)\<close>, skipping
  a segment whose stripped text is empty.\<close>

fun build_fragments ::
  "float_op \<Rightarrow> string \<Rightarrow> (nat \<times> TranscriptSegment) list \<Rightarrow> Fragment list" where
  "build_fragments float_add vid [] = []"
| "build_fragments float_add vid (iseg # rest) =
     (if strip (seg_text (snd iseg)) = [] then build_fragments float_add vid rest
      else make_fragment float_add vid (fst iseg) (snd iseg) # build_fragments float_add vid rest)"

text \<open>The segments that the first loop keeps: the stripped text is not empty.\<close>

definition nonblank :: "TranscriptSegment \<Rightarrow> bool" where
  "nonblank seg = (strip (seg_text seg) \<noteq> [])"

text \<open>\<open>xs[lo:hi]\<close> for \<open>0 \<le> lo\<close>.\<close>

definition slice :: "nat \<Rightarrow> nat \<Rightarrow> 'a list \<Rightarrow> 'a list" where
  "slice lo hi xs = take (hi - lo) (drop lo xs)"

text \<open>The second loop: \<open>for batch_start in range(0, len(documents), BATCH_SIZE)\<close>. An
  exception of \<open>collection.add\<close> leaves the loop with the batches added so far in place.\<close>

function add_batches :: "Fragment list \<Rightarrow> nat \<Rightarrow> nat \<Rightarrow> Collection \<Rightarrow> (error + nat) \<times> Collection"
  where
  "add_batches docs batch_start indexed c =
     (if batch_start < length docs then
        (let batch_end = batch_start + BATCH_SIZE;
             batch = slice batch_start batch_end docs
         in case collection_add batch c of
              Inl e \<Rightarrow> (Inl e, c)
            | Inr c' \<Rightarrow> add_batches docs batch_end (indexed + length batch) c')
      else (Inr indexed, c))"
  by pat_completeness auto
termination
  by (relation "measure (\<lambda>(docs, batch_start, indexed, c). length docs - batch_start)")
     (auto simp: BATCH_SIZE_def)

declare add_batches.simps [simp del]

definition index_video ::
  "float_op \<Rightarrow> string \<Rightarrow> TranscriptSegment list \<Rightarrow> Collection \<Rightarrow> (error + nat) \<times> Collection"
  where
  "index_video float_add vid segments c =
     (if segments = [] then (Inr 0, c)
      else add_batches (build_fragments float_add vid (enumerate 0 segments)) 0 0
             (delete_video vid c))"

text \<open>The fragments of the collection that a video owns.\<close>

definition fragments_of :: "string \<Rightarrow> Collection \<Rightarrow> Fragment list" where
  "fragments_of vid c = filter (\<lambda>f. meta_video_id f = vid) (entries c)"

text \<open>What the store maintains: every record's id is the key formed from its own
  metadata, and ids are unique in the collection.\<close>

definition keyed :: "Fragment \<Rightarrow> bool" where
  "keyed f = (frag_id f = fragment_key (meta_video_id f) (meta_segment_index f))"

definition collection_ok :: "Collection \<Rightarrow> bool" where
  "collection_ok c = (list_all keyed (entries c) \<and> distinct (map frag_id (entries c)))"

text \<open>The states of the collection that the calls of the store produce, from the empty
  collection of an engine with any ceiling.\<close>

inductive written_by_store :: "Collection \<Rightarrow> bool" where
  created: "written_by_store \<lparr>entries = [], max_batch_size = m\<rparr>"
| indexed: "written_by_store c \<Longrightarrow> written_by_store (snd (index_video float_add vid segments c))"
| deleted: "written_by_store c \<Longrightarrow> written_by_store (delete_video vid c)"

section \<open>Orchestration service (service.py)\<close>

text \<open>
  The collaborators are parameters: the URL parser \<open>YouTubeExtractor.parse_video_id\<close>
  (regular expressions with a \<open>urllib\<close> fallback) and the injected extractor
  (ingestion/youtube.py), the classifier with its \<open>available\<close> flag (llm.py), and the two
  operations of the \<open>VectorStore\<close> interface that the service calls while adding and
  removing. Each stands for what the collaborator answers, a value or the exception it
  raises. An operation of the vector store returns its outcome together with the store
  as the call left it, since an exception does not undo what was done before; the same
  holds for the operations of the service.
\<close>

record 'vs Deps =
  parse_video_id :: "string \<Rightarrow> error + string"
  extract_video :: "string \<Rightarrow> error + Video"
  llm_available :: bool
  classify :: "string \<Rightarrow> string \<Rightarrow> string \<Rightarrow> error + string list"
  vs_index_video :: "string \<Rightarrow> TranscriptSegment list \<Rightarrow> 'vs \<Rightarrow> (error + nat) \<times> 'vs"
  vs_delete_video :: "string \<Rightarrow> 'vs \<Rightarrow> error option \<times> 'vs"

record 'vs Service =
  repo :: repository
  vectorstore :: "'vs option"

definition already_exists_msg :: "string \<Rightarrow> string" where
  "already_exists_msg vid =
     ''Video already in library: '' @ vid @ ''. Use remove_video() first to re-ingest.''"

text \<open>\<open>if self._vectorstore and video.transcript: self._vectorstore.index_video(...)\<close>.\<close>

definition index_step :: "'vs Deps \<Rightarrow> Video \<Rightarrow> 'vs Service \<Rightarrow> error option \<times> 'vs Service" where
  "index_step d video s =
     (case vectorstore s of
        None \<Rightarrow> (None, s)
      | Some vs \<Rightarrow>
          if transcript video = [] then (None, s)
          else (case vs_index_video d (video_id video) (transcript video) vs of
                  (Inl e, vs') \<Rightarrow> (Some e, s\<lparr>vectorstore := Some vs'\<rparr>)
                | (Inr indexed, vs') \<Rightarrow> (None, s\<lparr>vectorstore := Some vs'\<rparr>)))"

text \<open>The auto-classification of \<open>add_video\<close>: \<open>except LLMError\<close> catches that class only.\<close>

definition classify_step :: "'vs Deps \<Rightarrow> Video \<Rightarrow> 'vs Service \<Rightarrow> (error + Video) \<times> 'vs Service" where
  "classify_step d video s =
     (if llm_available d then
        (case classify d (title video) (description video) (channel video) of
           Inr new_tags \<Rightarrow>
             (let video' = video\<lparr>tags := new_tags\<rparr>
              in (Inr video', s\<lparr>repo := save video' (repo s)\<rparr>))
         | Inl (LLMError msg) \<Rightarrow> (Inr video, s)
         | Inl e \<Rightarrow> (Inl e, s))
      else (Inr video, s))"

definition add_video :: "'vs Deps \<Rightarrow> string \<Rightarrow> 'vs Service \<Rightarrow> (error + Video) \<times> 'vs Service" where
  "add_video d url s =
     (case parse_video_id d url of
        Inl e \<Rightarrow> (Inl e, s)
      | Inr vid \<Rightarrow>
          if exists_video (repo s) vid
          then (Inl (VideoAlreadyExistsError (already_exists_msg vid)), s)
          else (case extract_video d url of
                  Inl e \<Rightarrow> (Inl e, s)
                | Inr video \<Rightarrow>
                    (case index_step d video (s\<lparr>repo := save video (repo s)\<rparr>) of
                       (Some e, s') \<Rightarrow> (Inl e, s')
                     | (None, s') \<Rightarrow> classify_step d video s')))"

definition get_info :: "'vs Service \<Rightarrow> string \<Rightarrow> error + Video" where
  "get_info s vid =
     (case get (repo s) vid of
        None \<Rightarrow> Inl (VideoNotFoundError (''Video not found: '' @ vid))
      | Some video \<Rightarrow> Inr video)"

definition remove_video :: "'vs Deps \<Rightarrow> string \<Rightarrow> 'vs Service \<Rightarrow> (error + unit) \<times> 'vs Service" where
  "remove_video d vid s =
     (if \<not> exists_video (repo s) vid
      then (Inl (VideoNotFoundError (''Video not found: '' @ vid)), s)
      else (let s' = s\<lparr>repo := delete vid (repo s)\<rparr>
            in case vectorstore s' of
                 None \<Rightarrow> (Inr (), s')
               | Some vs \<Rightarrow>
                   (case vs_delete_video d vid vs of
                      (Some e, vs') \<Rightarrow> (Inl e, s'\<lparr>vectorstore := Some vs'\<rparr>)
                    | (None, vs') \<Rightarrow> (Inr (), s'\<lparr>vectorstore := Some vs'\<rparr>))))"

definition classify_video :: "'vs Deps \<Rightarrow> string \<Rightarrow> 'vs Service \<Rightarrow> (error + string list) \<times> 'vs Service"
  where
  "classify_video d vid s =
     (case get_info s vid of
        Inl e \<Rightarrow> (Inl e, s)
      | Inr video \<Rightarrow>
          if \<not> llm_available d
          then (Inl (RuntimeError ''Classification requires an LLM. Set an API key.''), s)
          else (case classify d (title video) (description video) (channel video) of
                  Inl e \<Rightarrow> (Inl e, s)
                | Inr new_tags \<Rightarrow>
                    (Inr new_tags, s\<lparr>repo := save (video\<lparr>tags := new_tags\<rparr>) (repo s)\<rparr>)))"

text \<open>The service wired to \<open>ChromaVectorStore\<close>, whose \<open>delete_video\<close> never raises.\<close>

definition chroma_deps ::
  "float_op \<Rightarrow> (string \<Rightarrow> error + string) \<Rightarrow> (string \<Rightarrow> error + Video) \<Rightarrow> bool
   \<Rightarrow> (string \<Rightarrow> string \<Rightarrow> string \<Rightarrow> error + string list) \<Rightarrow> Collection Deps" where
  "chroma_deps float_add p e a cl =
     \<lparr>parse_video_id = p, extract_video = e, llm_available = a, classify = cl,
      vs_index_video = index_video float_add,
      vs_delete_video = (\<lambda>vid c. (None, delete_video vid c))\<rparr>"

section \<open>Example data\<close>

text \<open>A small library used to run the definitions: three videos saved oldest first, the
  newest with an identifier made of digits only.\<close>

definition seg1 :: TranscriptSegment where
  "seg1 = \<lparr>seg_start = Finite 0, seg_duration = Finite 5, seg_text = ''Hello and welcome.''\<rparr>"

definition seg2 :: TranscriptSegment where
  "seg2 = \<lparr>seg_start = Finite 5, seg_duration = Finite 4, seg_text = ''Cooking pasta is easy.''\<rparr>"

definition seg_blank :: TranscriptSegment where
  "seg_blank = \<lparr>seg_start = Finite 9, seg_duration = Finite 1, seg_text = ''  ''\<rparr>"

definition video_a :: Video where
  "video_a = \<lparr>video_id = ''aaaaaaaaaaa'', title = ''Deep Learning Intro'', description = [],
     channel = ''EduCh'', duration = Finite 25, thumbnail_url = [], chapters = [],
     transcript = [seg1], tags = [], added_at = ''2025-01-01T00:00:00+00:00''\<rparr>"

definition video_b :: Video where
  "video_b = \<lparr>video_id = ''bbbbbbbbbbb'', title = ''AI Debate'', description = [],
     channel = ''Deep Channel'', duration = Finite 300, thumbnail_url = [], chapters = [],
     transcript = [], tags = [''AI''], added_at = ''2025-03-01T00:00:00+00:00''\<rparr>"

definition video_c :: Video where
  "video_c = \<lparr>video_id = ''12345678901'', title = ''Cooking Pasta'', description = [],
     channel = ''FoodChannel'', duration = Finite 600, thumbnail_url = [], chapters = [],
     transcript = [], tags = [], added_at = ''2025-06-01T00:00:00+00:00''\<rparr>"

definition video_a_resaved :: Video where
  "video_a_resaved = video_a\<lparr>title := ''Updated Title'', tags := [''AI'', ''Tutorial''],
     added_at := ''2026-02-02T00:00:00+00:00''\<rparr>"

definition library :: repository where
  "library = save video_c (save video_b (save video_a []))"

definition empty_collection :: Collection where
  "empty_collection = \<lparr>entries = [], max_batch_size = 500\<rparr>"

text \<open>An engine that takes one record at a time.\<close>

definition narrow_collection :: Collection where
  "narrow_collection = \<lparr>entries = [], max_batch_size = 1\<rparr>"

text \<open>A segment whose text is a no-break space (U+00A0) between two spaces.\<close>

definition seg_nbsp :: TranscriptSegment where
  "seg_nbsp = \<lparr>seg_start = Finite 10, seg_duration = Finite 1,
     seg_text = [CHR 0x20, CHR 0xA0, CHR 0x20]\<rparr>"

text \<open>A stand-in for float addition, exact on finite values; the sums of the example
  segments are whole numbers, which float addition gives exactly.\<close>

fun exact_add :: float_op where
  "exact_add (Finite a) (Finite b) = Finite (a + b)"
| "exact_add a b = NaN"

text \<open>Stand-ins for the collaborators, in the manner of the mocks of the test suite: a
  parser for URLs that end in the eleven characters of the identifier, an extractor that
  returns a fixed video under the parsed identifier, a classifier that fails with its
  typed error and one that answers, and a vector store whose purge raises.\<close>

definition example_parse_video_id :: "string \<Rightarrow> error + string" where
  "example_parse_video_id url =
     (if length url < 11
      then Inl (ExtractionError (''Could not extract video ID from URL: '' @ url))
      else Inr (drop (length url - 11) url))"

definition video_new :: Video where
  "video_new = \<lparr>video_id = ''dQw4w9WgXcQ'', title = ''Intro to Machine Learning'',
     description = ''A guide to machine learning.'', channel = ''TechChannel'', duration = Finite 25,
     thumbnail_url = [], chapters = [], transcript = [seg1, seg2], tags = [],
     added_at = ''2025-06-15T12:00:00+00:00''\<rparr>"

definition example_extract :: "string \<Rightarrow> error + Video" where
  "example_extract url =
     (case example_parse_video_id url of
        Inl e \<Rightarrow> Inl e
      | Inr vid \<Rightarrow> Inr (video_new\<lparr>video_id := vid\<rparr>))"

definition classify_fails :: "string \<Rightarrow> string \<Rightarrow> string \<Rightarrow> error + string list" where
  "classify_fails t d c = Inl (LLMError ''LLM request failed'')"

definition classify_answers :: "string \<Rightarrow> string \<Rightarrow> string \<Rightarrow> error + string list" where
  "classify_answers t d c = Inr [''Debate'', ''Politics'']"

definition purge_fails :: "string \<Rightarrow> Collection \<Rightarrow> error option \<times> Collection" where
  "purge_fails vid c = (Some (OtherException ''index unavailable''), c)"

definition deps_llm_down :: "Collection Deps" where
  "deps_llm_down =
     chroma_deps exact_add example_parse_video_id example_extract True classify_fails"

definition deps_llm_up :: "Collection Deps" where
  "deps_llm_up =
     chroma_deps exact_add example_parse_video_id example_extract True classify_answers"

definition deps_purge_fails :: "Collection Deps" where
  "deps_purge_fails = deps_llm_down\<lparr>vs_delete_video := purge_fails\<rparr>"

definition example_service :: "Collection Service" where
  "example_service = \<lparr>repo = library, vectorstore = Some empty_collection\<rparr>"

section \<open>Facts about strings\<close>

lemma digit_val_nonneg: "is_ascii_digit c \<Longrightarrow> 0 \<le> digit_val c"
  by (simp add: is_ascii_digit_def digit_val_def)

lemma foldl_digits_nonneg:
  "list_all is_ascii_digit s \<Longrightarrow> 0 \<le> a \<Longrightarrow> 0 \<le> foldl (\<lambda>a c. 10 * a + digit_val c) a s"
  by (induction s arbitrary: a) (auto simp: digit_val_nonneg)

lemma decimal_value_nonneg: "list_all is_ascii_digit s \<Longrightarrow> 0 \<le> decimal_value s"
  by (simp add: decimal_value_def foldl_digits_nonneg)

lemma decimal_value_snoc: "decimal_value (s @ [c]) = 10 * decimal_value s + digit_val c"
  by (simp add: decimal_value_def)

lemma digit_char_is_digit: "d < 10 \<Longrightarrow> is_ascii_digit (digit_char d)"
  by (simp add: is_ascii_digit_def digit_char_def)

lemma digit_val_digit_char: "d < 10 \<Longrightarrow> digit_val (digit_char d) = int d"
  by (simp add: digit_val_def digit_char_def)

lemma str_nat_small: "n < 10 \<Longrightarrow> str_nat n = [digit_char n]"
  using str_nat.simps [of n] by simp

lemma str_nat_large:
  "\<not> n < 10 \<Longrightarrow> str_nat n = str_nat (n div 10) @ [digit_char (n mod 10)]"
  using str_nat.simps [of n] by simp

lemma str_nat_digits: "list_all is_ascii_digit (str_nat n)"
proof (induction n rule: str_nat.induct)
  case (1 n)
  show ?case
  proof (cases "n < 10")
    case True
    then show ?thesis
      by (simp add: str_nat_small digit_char_is_digit)
  next
    case False
    with 1 have "list_all is_ascii_digit (str_nat (n div 10))"
      by simp
    then show ?thesis
      using False by (simp add: str_nat_large digit_char_is_digit)
  qed
qed

lemma decimal_value_str_nat: "decimal_value (str_nat n) = int n"
proof (induction n rule: str_nat.induct)
  case (1 n)
  show ?case
  proof (cases "n < 10")
    case True
    then show ?thesis
      by (simp add: str_nat_small decimal_value_def digit_val_digit_char)
  next
    case False
    with 1 have ih: "decimal_value (str_nat (n div 10)) = int (n div 10)"
      by simp
    have "decimal_value (str_nat n) = 10 * int (n div 10) + int (n mod 10)"
      using False ih by (simp add: str_nat_large decimal_value_snoc digit_val_digit_char)
    also have "\<dots> = int (10 * (n div 10) + n mod 10)"
      by (simp only: of_nat_add of_nat_mult of_nat_numeral)
    also have "\<dots> = int n"
      by (simp only: mult_div_mod_eq)
    finally show ?thesis .
  qed
qed

lemma str_nat_inj: "str_nat i = str_nat j \<Longrightarrow> i = j"
proof -
  assume "str_nat i = str_nat j"
  then have "decimal_value (str_nat i) = decimal_value (str_nat j)"
    by (rule arg_cong)
  then show "i = j"
    by (simp only: decimal_value_str_nat of_nat_eq_iff)
qed

lemma underscore_not_digit: "\<not> is_ascii_digit (CHR ''_'')"
  by (simp add: is_ascii_digit_def)

lemma no_underscore_in_str_nat: "CHR ''_'' \<notin> set (str_nat n)"
  using str_nat_digits [of n] underscore_not_digit by (auto simp: list_all_iff)

lemma split_at_last_separator:
  "a @ u # s = b @ u # t \<Longrightarrow> u \<notin> set s \<Longrightarrow> u \<notin> set t \<Longrightarrow> a = b \<and> s = t"
proof (induction a arbitrary: b)
  case Nil
  then show ?case by (cases b) auto
next
  case (Cons x a)
  then show ?case by (cases b) auto
qed

lemma starts_with_iff: "starts_with s q \<longleftrightarrow> (\<exists>after. s = q @ after)"
  by (induction s q rule: starts_with.induct) auto

lemma contains_iff: "contains s q \<longleftrightarrow> is_substring q s"
proof (induction s)
  case Nil
  then show ?case by (simp add: is_substring_def)
next
  case (Cons c cs)
  have "is_substring q (c # cs) \<longleftrightarrow> (\<exists>after. c # cs = q @ after) \<or> is_substring q cs"
  proof
    assume "is_substring q (c # cs)"
    then obtain before after where split: "c # cs = before @ q @ after"
      by (auto simp: is_substring_def)
    show "(\<exists>after. c # cs = q @ after) \<or> is_substring q cs"
    proof (cases before)
      case Nil
      with split show ?thesis by auto
    next
      case (Cons b bs)
      with split have "cs = bs @ q @ after" by simp
      then show ?thesis by (auto simp: is_substring_def)
    qed
  next
    assume "(\<exists>after. c # cs = q @ after) \<or> is_substring q cs"
    then show "is_substring q (c # cs)"
    proof
      assume "\<exists>after. c # cs = q @ after"
      then obtain after where "c # cs = [] @ q @ after" by auto
      then show ?thesis unfolding is_substring_def by blast
    next
      assume "is_substring q cs"
      then obtain before after where "cs = before @ q @ after"
        by (auto simp: is_substring_def)
      then have "c # cs = (c # before) @ q @ after" by simp
      then show ?thesis unfolding is_substring_def by blast
    qed
  qed
  with Cons show ?case
    by (simp add: starts_with_iff)
qed

section \<open>Facts about the entity store\<close>

lemma video_id_metadata_only [simp]: "video_id (metadata_only r) = video_id r"
  by (simp add: metadata_only_def)

lemma added_at_metadata_only [simp]: "added_at (metadata_only r) = added_at r"
  by (simp add: metadata_only_def)

lemma title_metadata_only [simp]: "title (metadata_only r) = title r"
  by (simp add: metadata_only_def)

lemma channel_metadata_only [simp]: "channel (metadata_only r) = channel r"
  by (simp add: metadata_only_def)

lemma mset_order_by [simp]: "mset (order_by_added_at_desc rows) = mset rows"
  by (simp add: order_by_added_at_desc_def)

lemma length_list_all_videos [simp]: "length (list_all_videos rp) = length rp"
  by (simp add: list_all_videos_def order_by_added_at_desc_def)

lemma mset_list_all_videos: "mset (list_all_videos rp) = image_mset metadata_only (mset rp)"
  by (simp add: list_all_videos_def)

lemma set_list_all_videos: "set (list_all_videos rp) = metadata_only ` set rp"
  by (simp add: list_all_videos_def order_by_added_at_desc_def)

lemma list_all_videos_newest_first:
  "sorted_wrt (\<lambda>a b. added_at b \<le> added_at a) (list_all_videos rp)"
proof -
  have "sorted (map added_at (sort_key added_at (rev rp)))"
    by (rule sorted_sort_key)
  then have "sorted_wrt (\<lambda>a b. added_at a \<le> added_at b) (sort_key added_at (rev rp))"
    by (simp add: sorted_map)
  then have "sorted_wrt (\<lambda>a b. added_at b \<le> added_at a) (order_by_added_at_desc rp)"
    by (simp add: order_by_added_at_desc_def sorted_wrt_rev)
  then show ?thesis
    by (simp add: list_all_videos_def sorted_wrt_map)
qed

lemma get_None_iff: "get rp vid = None \<longleftrightarrow> vid \<notin> video_id ` set rp"
  by (auto simp: get_def find_None_iff)

lemma get_Some_mem: "get rp vid = Some v \<Longrightarrow> v \<in> set rp \<and> video_id v = vid"
  by (auto simp: get_def find_Some_iff)

lemma get_of_member:
  "pk_unique rp \<Longrightarrow> v \<in> set rp \<Longrightarrow> get rp (video_id v) = Some v"
  unfolding pk_unique_def get_def
  by (induction rp) (auto simp: image_iff)

lemma exists_video_iff: "exists_video rp vid \<longleftrightarrow> vid \<in> video_id ` set rp"
  by (auto simp: exists_video_def find_None_iff)

lemma exists_video_get: "exists_video rp vid \<longleftrightarrow> get rp vid \<noteq> None"
  by (simp add: exists_video_def get_def)

lemma get_listed:
  assumes "pk_unique rp" and "m \<in> set (list_all_videos rp)"
  shows "\<exists>v. get rp (video_id m) = Some v \<and> v \<in> set rp \<and> metadata_only v = m"
proof -
  from assms(2) obtain v where v: "v \<in> set rp" "m = metadata_only v"
    by (auto simp: set_list_all_videos)
  with assms(1) have "get rp (video_id m) = Some v"
    by (simp add: get_of_member)
  with v show ?thesis by blast
qed

lemma pk_unique_empty: "pk_unique []"
  by (simp add: pk_unique_def)

lemma video_id_on_conflict_update [simp]: "video_id (on_conflict_update video r) = video_id r"
  by (simp add: on_conflict_update_def)

lemma added_at_on_conflict_update [simp]: "added_at (on_conflict_update video r) = added_at r"
  by (simp add: on_conflict_update_def)

lemma map_video_id_save:
  "map video_id (save video rp) =
     (if exists_video rp (video_id video) then map video_id rp
      else map video_id rp @ [video_id video])"
proof -
  have "map video_id (map (\<lambda>r. if video_id r = video_id video
                     then on_conflict_update video r else r) rp) = map video_id rp"
    by (induction rp) auto
  then show ?thesis
    by (simp add: save_def)
qed

lemma pk_unique_save: "pk_unique rp \<Longrightarrow> pk_unique (save video rp)"
  by (auto simp: pk_unique_def map_video_id_save exists_video_iff)

lemma pk_unique_delete: "pk_unique rp \<Longrightarrow> pk_unique (delete vid rp)"
  by (simp add: pk_unique_def delete_def distinct_map_filter)

lemma get_save_existing:
  "get rp (video_id video) = Some old \<Longrightarrow>
   get (save video rp) (video_id video) = Some (on_conflict_update video old)"
proof -
  assume old: "get rp (video_id video) = Some old"
  then have ex: "exists_video rp (video_id video)"
    by (simp add: exists_video_get)
  have "find (\<lambda>r. video_id r = vid)
          (map (\<lambda>r. if video_id r = vid then on_conflict_update video r else r) rows)
        = map_option (on_conflict_update video) (find (\<lambda>r. video_id r = vid) rows)" for vid rows
    by (induction rows) auto
  with old ex show ?thesis
    by (simp add: get_def save_def)
qed

lemma get_save_other:
  "vid \<noteq> video_id video \<Longrightarrow> get (save video rp) vid = get rp vid"
proof -
  assume neq: "vid \<noteq> video_id video"
  have "find (\<lambda>r. video_id r = vid)
          (map (\<lambda>r. if video_id r = video_id video then on_conflict_update video r else r) rows)
        = find (\<lambda>r. video_id r = vid) rows" for rows
    using neq by (induction rows) auto
  moreover have "find (\<lambda>r. video_id r = vid) (rows @ [video]) = find (\<lambda>r. video_id r = vid) rows"
    for rows
    using neq by (induction rows) auto
  ultimately show ?thesis
    by (simp add: get_def save_def)
qed

lemma find_snoc_absent:
  "find P rows = None \<Longrightarrow> P v \<Longrightarrow> find P (rows @ [v]) = Some v"
  by (induction rows) (auto split: if_splits)

lemma get_save_new:
  "get rp (video_id video) = None \<Longrightarrow> get (save video rp) (video_id video) = Some video"
proof -
  assume absent: "get rp (video_id video) = None"
  then have "\<not> exists_video rp (video_id video)"
    by (simp add: exists_video_get)
  moreover have "find (\<lambda>r. video_id r = video_id video) (rp @ [video]) = Some video"
    using absent by (intro find_snoc_absent) (simp_all add: get_def)
  ultimately show ?thesis
    by (simp add: get_def save_def)
qed

lemma added_at_after_saves:
  "get rp vid = Some old \<Longrightarrow>
   \<exists>r. get (foldl (\<lambda>acc v. save v acc) rp later) vid = Some r \<and> added_at r = added_at old"
proof (induction later arbitrary: rp old)
  case Nil
  then show ?case by simp
next
  case (Cons v later)
  show ?case
  proof (cases "video_id v = vid")
    case True
    with Cons.prems have "get (save v rp) vid = Some (on_conflict_update v old)"
      using get_save_existing by blast
    from Cons.IH [OF this] show ?thesis by simp
  next
    case False
    with Cons.prems have "get (save v rp) vid = Some old"
      by (simp add: get_save_other)
    from Cons.IH [OF this] show ?thesis by simp
  qed
qed

lemma exists_video_delete [simp]: "\<not> exists_video (delete vid rp) vid"
  by (auto simp: exists_video_iff delete_def)

lemma get_delete_same [simp]: "get (delete vid rp) vid = None"
  by (auto simp: get_None_iff delete_def)

section \<open>Properties of the resolver\<close>



lemma int_of_str_decimal:
  "list_all is_ascii_digit s \<Longrightarrow> length s \<le> MAX_STR_DIGITS \<Longrightarrow> int_of_str s = Inr (decimal_value s)"
proof -
  assume digits: "list_all is_ascii_digit s" and short: "length s \<le> MAX_STR_DIGITS"
  have all: "takeWhile is_ascii_digit s = s"
    using digits by (simp add: list_all_iff)
  show ?thesis
    unfolding int_of_str_def Let_def all using digits short by simp
qed

lemma int_of_str_too_long:
  "list_all is_ascii_digit s \<Longrightarrow> MAX_STR_DIGITS < length s \<Longrightarrow>
   int_of_str s = Inl (ValueError (exceeds_limit_msg (length s)))"
proof -
  assume digits: "list_all is_ascii_digit s" and long: "MAX_STR_DIGITS < length s"
  have all: "takeWhile is_ascii_digit s = s"
    using digits by (simp add: list_all_iff)
  show ?thesis
    unfolding int_of_str_def Let_def all using long by simp
qed

lemma isdigit_decimal: "s \<noteq> [] \<Longrightarrow> list_all is_ascii_digit s \<Longrightarrow> isdigit s"
  by (simp add: isdigit_def list_all_iff)

text \<open>
  What the second tier does on a query of decimal digits that is not a stored identifier
  and is not longer than the limit of \<open>int\<close>: the query is read as a 1-based position \<open>n\<close>
  in the listing of all entities, newest creation timestamp first. For \<open>1 \<le> n \<le> count\<close>
  the resolver returns the stored entity listed at position \<open>n\<close>; for \<open>n = 0\<close> or
  \<open>n > count\<close> it fails with the NotFound error whose message gives the number of stored
  entities. These cases cover every such query, so none of them reaches the substring
  tier. The listing holds each stored entity once and is ordered by descending
  timestamp, in the order of the stored ISO texts, as \<open>ORDER BY added_at DESC\<close> compares
  them.
\<close>

lemma resolve_positional_index:
  assumes pk: "pk_unique rp"
    and not_id: "get rp query = None"
    and nonempty: "query \<noteq> []"
    and digits: "list_all is_ascii_digit query"
    and short: "length query \<le> MAX_STR_DIGITS"
  shows "(1 \<le> decimal_value query \<and> decimal_value query \<le> int (length rp) \<longrightarrow>
            (\<exists>v. resolve_video rp query = Inr (Some v) \<and> v \<in> set rp
                 \<and> metadata_only v = list_all_videos rp ! (nat (decimal_value query) - 1)))
       \<and> (decimal_value query = 0 \<or> int (length rp) < decimal_value query \<longrightarrow>
            resolve_video rp query = Inl (VideoNotFoundError
              (''Index '' @ query @ '' out of range. Library has '' @ str_nat (length rp)
               @ '' video(s).'')))
       \<and> 0 \<le> decimal_value query
       \<and> resolve_video rp query \<noteq> Inl (VideoNotFoundError (''No video matching: '' @ query))
       \<and> (\<forall>msg. resolve_video rp query \<noteq> Inl (AmbiguousVideoError msg))
       \<and> mset (list_all_videos rp) = image_mset metadata_only (mset rp)
       \<and> sorted_wrt (\<lambda>a b. added_at b \<le> added_at a) (list_all_videos rp)"
proof -
  let ?n = "decimal_value query"
  have isd: "isdigit query"
    using nonempty digits by (rule isdigit_decimal)
  have parsed: "int_of_str query = Inr ?n"
    using digits short by (rule int_of_str_decimal)
  have in_range: "\<exists>v. resolve_video rp query = Inr (Some v) \<and> v \<in> set rp
                 \<and> metadata_only v = list_all_videos rp ! (nat ?n - 1)"
    if "1 \<le> ?n" "?n \<le> int (length rp)"
  proof -
    from that have idx: "nat (?n - 1) < length (list_all_videos rp)"
      by simp
    then have "list_all_videos rp ! nat (?n - 1) \<in> set (list_all_videos rp)"
      by (rule nth_mem)
    from get_listed [OF pk this] obtain v where
      v: "get rp (video_id (list_all_videos rp ! nat (?n - 1))) = Some v" "v \<in> set rp"
         "metadata_only v = list_all_videos rp ! nat (?n - 1)"
      by blast
    have "resolve_video rp query = Inr (get rp (video_id (list_all_videos rp ! nat (?n - 1))))"
      using not_id isd parsed that by (simp add: resolve_video_def Let_def)
    moreover have "nat (?n - 1) = nat ?n - 1"
      using that by simp
    ultimately show ?thesis
      using v by simp
  qed
  have out_of_range: "resolve_video rp query = Inl (VideoNotFoundError
              (''Index '' @ query @ '' out of range. Library has '' @ str_nat (length rp)
               @ '' video(s).''))"
    if "?n = 0 \<or> int (length rp) < ?n"
    using not_id isd parsed that by (auto simp: resolve_video_def Let_def out_of_range_msg_def)
  have nonneg: "0 \<le> ?n"
    by (rule decimal_value_nonneg [OF digits])
  have cases: "(1 \<le> ?n \<and> ?n \<le> int (length rp)) \<or> (?n = 0 \<or> int (length rp) < ?n)"
    using nonneg by linarith
  have no_scan: "resolve_video rp query \<noteq> Inl (VideoNotFoundError (''No video matching: '' @ query))"
    using cases in_range out_of_range by auto
  have no_ambiguity: "resolve_video rp query \<noteq> Inl (AmbiguousVideoError msg)" for msg
    using cases in_range out_of_range by auto
  show ?thesis
    using in_range out_of_range nonneg no_scan no_ambiguity
      mset_list_all_videos list_all_videos_newest_first
    by blast
qed

lemma resolve_positional_index_example:
  "pk_unique library \<and> get library ''3'' = None \<and> list_all is_ascii_digit ''3''
   \<and> decimal_value ''3'' = 3 \<and> int (length library) = 3
   \<and> (\<exists>v. resolve_video library ''3'' = Inr (Some v) \<and> v \<in> set library
           \<and> metadata_only v = list_all_videos library ! 2)
   \<and> resolve_video library ''3'' = Inr (Some video_a)
   \<and> resolve_video library ''1'' = Inr (Some video_c)
   \<and> get library ''4'' = None \<and> list_all is_ascii_digit ''4'' \<and> decimal_value ''4'' = 4
   \<and> resolve_video library ''4''
       = Inl (VideoNotFoundError ''Index 4 out of range. Library has 3 video(s).'')"
proof -
  have pk: "pk_unique library" by code_simp
  have oldest: "resolve_video library ''3'' = Inr (Some video_a)" by code_simp
  have newest: "resolve_video library ''1'' = Inr (Some video_c)" by code_simp
  have len: "int (length library) = 3" by code_simp
  have g3: "get library ''3'' = None" by code_simp
  have d3: "list_all is_ascii_digit ''3''" by code_simp
  have n3: "decimal_value ''3'' = 3" by code_simp
  have g4: "get library ''4'' = None" by code_simp
  have d4: "list_all is_ascii_digit ''4''" by code_simp
  have n4: "decimal_value ''4'' = 4" by code_simp
  have s3: "str_nat 3 = ''3''" by code_simp
  have len': "length library = 3" using len by simp
  have short: "length ''3'' \<le> MAX_STR_DIGITS" "length ''4'' \<le> MAX_STR_DIGITS"
    by (simp_all add: MAX_STR_DIGITS_def)
  have third: "\<exists>v. resolve_video library ''3'' = Inr (Some v) \<and> v \<in> set library
           \<and> metadata_only v = list_all_videos library ! 2"
    using resolve_positional_index [OF pk g3 _ d3 short(1)] n3 len by simp
  have fourth: "resolve_video library ''4''
       = Inl (VideoNotFoundError ''Index 4 out of range. Library has 3 video(s).'')"
    using resolve_positional_index [OF pk g4 _ d4 short(2)] n4 len' s3 by simp
  show ?thesis
    using pk len g3 d3 n3 third oldest newest g4 d4 n4 fourth by blast
qed

lemma resolve_too_long_digit_query:
  assumes "get rp query = None" and "list_all is_ascii_digit query"
    and "MAX_STR_DIGITS < length query"
  shows "resolve_video rp query = Inl (ValueError (exceeds_limit_msg (length query)))"
proof -
  have "query \<noteq> []"
    using assms(3) by auto
  then have "isdigit query"
    using assms(2) by (rule isdigit_decimal)
  moreover have "int_of_str query = Inl (ValueError (exceeds_limit_msg (length query)))"
    using assms(2,3) by (rule int_of_str_too_long)
  ultimately show ?thesis
    using assms(1) by (simp add: resolve_video_def Let_def)
qed

text \<open>
  Claim C1. A query made of decimal digits only that is not a stored identifier is to be
  read as a 1-based position \<open>n\<close>, and for \<open>n > count\<close> the resolver is to fail with the
  NotFound error that reports the number of stored entities. The code does so while the
  query has at most 4300 digits (\<open>resolve_positional_index\<close>). On a longer one \<open>int(query)\<close>
  raises \<open>ValueError\<close>, which \<open>resolve_video\<close> does not handle: for the query of 4301 nines
  and a library of three videos the outcome is that \<open>ValueError\<close>, not NotFound.
\<close>

theorem resolve_long_digit_query_raises_value_error:
  "list_all is_ascii_digit (replicate 4301 (CHR ''9''))
   \<and> get library (replicate 4301 (CHR ''9'')) = None
   \<and> int (length library) < decimal_value (replicate 4301 (CHR ''9''))
   \<and> resolve_video library (replicate 4301 (CHR ''9''))
       = Inl (ValueError (''Exceeds the limit (4300 digits) for integer string conversion: ''
                          @ ''value has 4301 digits; ''
                          @ ''use sys.set_int_max_str_digits() to increase the limit''))
   \<and> resolve_video library (replicate 4301 (CHR ''9''))
       \<noteq> Inl (VideoNotFoundError (out_of_range_msg (replicate 4301 (CHR ''9'')) 3))"
proof -
  let ?q = "replicate 4301 (CHR ''9'')"
  have nine: "is_ascii_digit (CHR ''9'')"
    by (simp add: is_ascii_digit_def)
  then have digits: "list_all is_ascii_digit ?q"
    by (simp add: list_all_iff)
  have "length (video_id v) = 11" if "v \<in> set library" for v
  proof -
    have "list_all (\<lambda>v. length (video_id v) = 11) library"
      by code_simp
    with that show ?thesis
      by (simp add: list_all_iff)
  qed
  then have "?q \<notin> video_id ` set library"
  proof -
    have "length ?q \<noteq> 11"
      by simp
    then show ?thesis
      using \<open>\<And>v. v \<in> set library \<Longrightarrow> length (video_id v) = 11\<close> by (metis imageE)
  qed
  then have absent: "get library ?q = None"
    by (simp only: get_None_iff not_False_eq_True)
  have long: "MAX_STR_DIGITS < length ?q"
    by (simp add: MAX_STR_DIGITS_def)
  have "str_nat 4301 = ''4301''"
    by code_simp
  then have raised: "resolve_video library ?q
       = Inl (ValueError (''Exceeds the limit (4300 digits) for integer string conversion: ''
                          @ ''value has 4301 digits; ''
                          @ ''use sys.set_int_max_str_digits() to increase the limit''))"
    using resolve_too_long_digit_query [OF absent digits long]
    by (simp add: exceeds_limit_msg_def)
  have "length library = 3"
    by code_simp
  moreover have "4 \<le> decimal_value ?q"
  proof -
    have "(4301::nat) = Suc 4300"
      by simp
    then have "?q = replicate 4300 (CHR ''9'') @ [CHR ''9'']"
      by (simp only: replicate_Suc replicate_append_same)
    then have "decimal_value ?q = decimal_value (replicate 4300 (CHR ''9'') @ [CHR ''9''])"
      by (rule arg_cong)
    also have "\<dots> = 10 * decimal_value (replicate 4300 (CHR ''9'')) + 9"
      by (simp only: decimal_value_snoc) (simp add: digit_val_def)
    finally show ?thesis
      using decimal_value_nonneg [of "replicate 4300 (CHR ''9'')"] nine
      by (simp add: list_all_iff)
  qed
  ultimately have beyond: "int (length library) < decimal_value ?q"
    by simp
  show ?thesis
    using digits absent beyond raised by simp
qed

lemma substring_match_iff: "substring_match (lower query) v \<longleftrightarrow> spec_match query v"
  by (simp add: substring_match_def spec_match_def contains_iff)

lemma ambiguous_lines_nth:
  "map ambiguous_line (enumerate 0 ms)
     = map (\<lambda>i. ''  '' @ str_nat (i + 1) @ ''. '' @ title (ms ! i)) [0..<length ms]"
  by (rule nth_equalityI) (simp_all add: ambiguous_line_def nth_enumerate_eq)

text \<open>
  What the third tier does. For a query that is no stored identifier and on which
  \<open>isdigit\<close> is false, the tier scans the listing and keeps the entities for which the
  lowercased query is a substring of the lowercased title or of the lowercased channel
  name. No match fails with NotFound; exactly one match returns that stored entity; more
  than one fails with the Ambiguous error whose message lists the title of every match,
  numbered from 1, in the order of the listing.
\<close>

lemma resolve_substring_tier:
  fixes rp :: repository and query :: string
  defines "matches \<equiv> filter (spec_match query) (list_all_videos rp)"
  assumes pk: "pk_unique rp"
    and not_id: "get rp query = None"
    and not_digits: "\<not> isdigit query"
  shows "(matches = [] \<longrightarrow>
            resolve_video rp query = Inl (VideoNotFoundError (''No video matching: '' @ query)))
       \<and> (\<forall>m. matches = [m] \<longrightarrow>
            (\<exists>v. resolve_video rp query = Inr (Some v) \<and> v \<in> set rp \<and> metadata_only v = m))
       \<and> (1 < length matches \<longrightarrow>
            resolve_video rp query = Inl (AmbiguousVideoError
              (''Multiple videos match '' @ [CHR 0x27] @ query @ [CHR 0x27] @ '':'' @ [CHR 0x0A]
               @ join [CHR 0x0A]
                   (map (\<lambda>i. ''  '' @ str_nat (i + 1) @ ''. '' @ title (matches ! i))
                        [0..<length matches]))))"
proof -
  have code_matches: "filter (substring_match (lower query)) (list_all_videos rp) = matches"
    unfolding matches_def by (rule filter_cong) (simp_all add: substring_match_iff)
  have scan: "resolve_video rp query =
      (if length matches = 1 then Inr (get rp (video_id (matches ! 0)))
       else if 1 < length matches then Inl (AmbiguousVideoError (ambiguous_msg query matches))
       else Inl (VideoNotFoundError (''No video matching: '' @ query)))"
    using not_id not_digits code_matches by (simp add: resolve_video_def Let_def)
  have none: "resolve_video rp query = Inl (VideoNotFoundError (''No video matching: '' @ query))"
    if "matches = []"
    using scan that by simp
  have one: "\<exists>v. resolve_video rp query = Inr (Some v) \<and> v \<in> set rp \<and> metadata_only v = m"
    if "matches = [m]" for m
  proof -
    have "m \<in> set matches"
      using that by simp
    then have "m \<in> set (list_all_videos rp)"
      by (simp add: matches_def)
    from get_listed [OF pk this] obtain v where
      "get rp (video_id m) = Some v" "v \<in> set rp" "metadata_only v = m"
      by blast
    then show ?thesis
      using scan that by simp
  qed
  have many: "resolve_video rp query = Inl (AmbiguousVideoError
              (''Multiple videos match '' @ [CHR 0x27] @ query @ [CHR 0x27] @ '':'' @ [CHR 0x0A]
               @ join [CHR 0x0A]
                   (map (\<lambda>i. ''  '' @ str_nat (i + 1) @ ''. '' @ title (matches ! i))
                        [0..<length matches])))"
    if "1 < length matches"
    using scan that by (simp add: ambiguous_msg_def ambiguous_lines_nth)
  show ?thesis
    using none one many by blast
qed

lemma resolve_substring_tier_example:
  "pk_unique library
   \<and> get library ''zzz'' = None \<and> \<not> isdigit ''zzz''
   \<and> filter (spec_match ''zzz'') (list_all_videos library) = []
   \<and> resolve_video library ''zzz'' = Inl (VideoNotFoundError ''No video matching: zzz'')
   \<and> get library ''pasta'' = None \<and> \<not> isdigit ''pasta''
   \<and> filter (spec_match ''pasta'') (list_all_videos library) = [metadata_only video_c]
   \<and> (\<exists>v. resolve_video library ''pasta'' = Inr (Some v) \<and> v \<in> set library
          \<and> metadata_only v = metadata_only video_c)
   \<and> resolve_video library ''pasta'' = Inr (Some video_c)
   \<and> get library ''deep'' = None \<and> \<not> isdigit ''deep''
   \<and> filter (spec_match ''deep'') (list_all_videos library)
        = [metadata_only video_b, metadata_only video_a]
   \<and> resolve_video library ''deep'' = Inl (AmbiguousVideoError
        (''Multiple videos match '' @ [CHR 0x27] @ ''deep'' @ [CHR 0x27] @ '':'' @ [CHR 0x0A]
         @ ''  1. AI Debate'' @ [CHR 0x0A] @ ''  2. Deep Learning Intro''))"
proof -
  have pk: "pk_unique library" by code_simp
  have gz: "get library ''zzz'' = None" by code_simp
  have dz: "\<not> isdigit ''zzz''" by code_simp
  have mz: "filter (spec_match ''zzz'') (list_all_videos library) = []"
    unfolding substring_match_iff [symmetric] by code_simp
  have gp: "get library ''pasta'' = None" by code_simp
  have dp: "\<not> isdigit ''pasta''" by code_simp
  have mp: "filter (spec_match ''pasta'') (list_all_videos library) = [metadata_only video_c]"
    unfolding substring_match_iff [symmetric] by code_simp
  have found: "resolve_video library ''pasta'' = Inr (Some video_c)" by code_simp
  have gd: "get library ''deep'' = None" by code_simp
  have dd: "\<not> isdigit ''deep''" by code_simp
  have md: "filter (spec_match ''deep'') (list_all_videos library)
              = [metadata_only video_b, metadata_only video_a]"
    unfolding substring_match_iff [symmetric] by code_simp
  have lines: "join [CHR 0x0A]
      (map (\<lambda>i. ''  '' @ str_nat (i + 1) @ ''. ''
                 @ title ([metadata_only video_b, metadata_only video_a] ! i))
           [0..<length [metadata_only video_b, metadata_only video_a]])
      = ''  1. AI Debate'' @ [CHR 0x0A] @ ''  2. Deep Learning Intro''"
    by code_simp
  have rz: "resolve_video library ''zzz'' = Inl (VideoNotFoundError ''No video matching: zzz'')"
    using resolve_substring_tier [OF pk gz dz] mz by simp
  have rp: "\<exists>v. resolve_video library ''pasta'' = Inr (Some v) \<and> v \<in> set library
          \<and> metadata_only v = metadata_only video_c"
    using resolve_substring_tier [OF pk gp dp] mp by simp
  have rd: "resolve_video library ''deep'' = Inl (AmbiguousVideoError
        (''Multiple videos match '' @ [CHR 0x27] @ ''deep'' @ [CHR 0x27] @ '':'' @ [CHR 0x0A]
         @ ''  1. AI Debate'' @ [CHR 0x0A] @ ''  2. Deep Learning Intro''))"
    using resolve_substring_tier [OF pk gd dd] unfolding md lines by simp
  show ?thesis
    using pk gz dz mz rz gp dp mp rp found gd dd md rd by blast
qed

text \<open>
  Claim C3. A query that is no stored identifier and is not made of decimal digits is to
  be settled by the third tier: NotFound when no title or channel contains it, the
  entity when one does, Ambiguous when several do. The code does so for every query on
  which \<open>isdigit\<close> is false (\<open>resolve_substring_tier\<close>). But \<open>isdigit\<close> is also true of the
  superscript digits, which are no decimal digits and which \<open>int\<close> refuses: the query
  made of the superscript two (U+00B2) matches no title and no channel of the library,
  and the outcome is the \<open>ValueError\<close> of \<open>int(query)\<close> in the second tier, not the NotFound
  of the third.
\<close>

theorem resolve_superscript_query_raises_value_error:
  "\<not> list_all is_ascii_digit [CHR 0xB2]
   \<and> get library [CHR 0xB2] = None
   \<and> filter (spec_match [CHR 0xB2]) (list_all_videos library) = []
   \<and> resolve_video library [CHR 0xB2]
       = Inl (ValueError (''invalid literal for int() with base 10: ''
                          @ [CHR 0x27, CHR 0xB2, CHR 0x27]))
   \<and> resolve_video library [CHR 0xB2]
       \<noteq> Inl (VideoNotFoundError (''No video matching: '' @ [CHR 0xB2]))"
proof -
  have no_decimal: "\<not> list_all is_ascii_digit [CHR 0xB2]"
    by code_simp
  have absent: "get library [CHR 0xB2] = None"
    by code_simp
  have no_match: "filter (spec_match [CHR 0xB2]) (list_all_videos library) = []"
    unfolding substring_match_iff [symmetric] by code_simp
  have raised: "resolve_video library [CHR 0xB2]
       = Inl (ValueError (''invalid literal for int() with base 10: ''
                          @ [CHR 0x27, CHR 0xB2, CHR 0x27]))"
    by code_simp
  show ?thesis
    using no_decimal absent no_match raised by simp
qed

section \<open>Properties of saving\<close>

text \<open>
  Claim C9. Saving a record whose identifier is already stored overwrites title,
  description, channel, duration, thumbnail, chapters, transcript and tags of the stored
  row with those of the record, and leaves the stored creation timestamp as it was; no
  sequence of later saves, of this or of other records, changes that timestamp.
\<close>

theorem save_existing_keeps_added_at:
  assumes "get rp (video_id video) = Some old"
  shows "(\<exists>r. get (save video rp) (video_id video) = Some r
           \<and> title r = title video \<and> description r = description video
           \<and> channel r = channel video \<and> duration r = duration video
           \<and> thumbnail_url r = thumbnail_url video \<and> chapters r = chapters video
           \<and> transcript r = transcript video \<and> tags r = tags video
           \<and> added_at r = added_at old)
       \<and> (\<exists>r. get (foldl (\<lambda>acc v. save v acc) rp later) (video_id video) = Some r
           \<and> added_at r = added_at old)
       \<and> length (save video rp) = length rp"
proof -
  have once: "\<exists>r. get (save video rp) (video_id video) = Some r
           \<and> title r = title video \<and> description r = description video
           \<and> channel r = channel video \<and> duration r = duration video
           \<and> thumbnail_url r = thumbnail_url video \<and> chapters r = chapters video
           \<and> transcript r = transcript video \<and> tags r = tags video
           \<and> added_at r = added_at old"
    using get_save_existing [OF assms] by (simp add: on_conflict_update_def)
  have ever: "\<exists>r. get (foldl (\<lambda>acc v. save v acc) rp later) (video_id video) = Some r
           \<and> added_at r = added_at old"
    using assms by (rule added_at_after_saves)
  have same_rows: "length (save video rp) = length rp"
    using assms by (simp add: save_def exists_video_get)
  show ?thesis
    using once ever same_rows by blast
qed

theorem save_existing_keeps_added_at_witness:
  "get library (video_id video_a_resaved) = Some video_a
   \<and> added_at video_a_resaved \<noteq> added_at video_a
   \<and> (\<exists>r. get (save video_a_resaved library) ''aaaaaaaaaaa'' = Some r
          \<and> title r = ''Updated Title'' \<and> tags r = [''AI'', ''Tutorial'']
          \<and> added_at r = ''2025-01-01T00:00:00+00:00'')
   \<and> (\<exists>r. get (foldl (\<lambda>acc v. save v acc) library [video_b, video_a_resaved, video_a])
               ''aaaaaaaaaaa'' = Some r
          \<and> added_at r = ''2025-01-01T00:00:00+00:00'')"
proof -
  have stored: "get library (video_id video_a_resaved) = Some video_a"
    by code_simp
  have differs: "added_at video_a_resaved \<noteq> added_at video_a"
    by code_simp
  have vals: "video_id video_a_resaved = ''aaaaaaaaaaa''" "title video_a_resaved = ''Updated Title''"
    "tags video_a_resaved = [''AI'', ''Tutorial'']" "added_at video_a = ''2025-01-01T00:00:00+00:00''"
    by (simp_all add: video_a_resaved_def video_a_def)
  show ?thesis
    using stored differs
      save_existing_keeps_added_at [OF stored, of "[video_b, video_a_resaved, video_a]"]
    by (auto simp: vals)
qed

section \<open>Properties of the orchestration service\<close>

lemma repo_index_step [simp]: "repo (snd (index_step d video s)) = repo s"
  by (simp add: index_step_def split: option.splits prod.splits sum.splits)

lemma pk_unique_classify_step:
  "pk_unique (repo s) \<Longrightarrow> pk_unique (repo (snd (classify_step d video s)))"
  by (auto simp: classify_step_def Let_def pk_unique_save split: sum.splits error.splits)

lemma pk_unique_add_video:
  assumes "pk_unique (repo s)"
  shows "pk_unique (repo (snd (add_video d url s)))"
proof (cases "parse_video_id d url")
  case (Inl e)
  with assms show ?thesis by (simp add: add_video_def)
next
  case (Inr vid)
  show ?thesis
  proof (cases "exists_video (repo s) vid")
    case True
    with Inr assms show ?thesis by (simp add: add_video_def)
  next
    case False
    show ?thesis
    proof (cases "extract_video d url")
      case (Inl e)
      with Inr False assms show ?thesis by (simp add: add_video_def)
    next
      case extracted: (Inr video)
      obtain r s' where step: "index_step d video (s\<lparr>repo := save video (repo s)\<rparr>) = (r, s')"
        by (cases "index_step d video (s\<lparr>repo := save video (repo s)\<rparr>)")
      have "repo s' = save video (repo s)"
        using repo_index_step [of d video "s\<lparr>repo := save video (repo s)\<rparr>"] step by simp
      with assms have saved: "pk_unique (repo s')"
        by (simp add: pk_unique_save)
      show ?thesis
      proof (cases r)
        case None
        with Inr False extracted step saved show ?thesis
          by (simp add: add_video_def pk_unique_classify_step)
      next
        case (Some e)
        with Inr False extracted step saved show ?thesis
          by (simp add: add_video_def)
      qed
    qed
  qed
qed

lemma pk_unique_remove_video:
  "pk_unique (repo s) \<Longrightarrow> pk_unique (repo (snd (remove_video d vid s)))"
  by (auto simp: remove_video_def Let_def pk_unique_delete split: option.splits prod.splits)

lemma pk_unique_classify_video:
  "pk_unique (repo s) \<Longrightarrow> pk_unique (repo (snd (classify_video d vid s)))"
  by (auto simp: classify_video_def pk_unique_save split: sum.splits)

text \<open>
  Claim C5. \<open>remove_video\<close> fails with NotFound and leaves store and index as they were
  when the identifier is not stored. When it is stored, the record is deleted from the
  store before the purge of the index is asked for, so whatever the purge does, succeed
  or raise, the store does not contain the identifier afterwards.
\<close>

theorem remove_video_store_first:
  "(\<not> exists_video (repo s) vid \<longrightarrow>
      remove_video d vid s = (Inl (VideoNotFoundError (''Video not found: '' @ vid)), s))
   \<and> (exists_video (repo s) vid \<longrightarrow>
        repo (snd (remove_video d vid s)) = delete vid (repo s)
        \<and> \<not> exists_video (repo (snd (remove_video d vid s))) vid
        \<and> get (repo (snd (remove_video d vid s))) vid = None
        \<and> (\<forall>vs e vs'. vectorstore s = Some vs \<and> vs_delete_video d vid vs = (Some e, vs') \<longrightarrow>
              remove_video d vid s = (Inl e, \<lparr>repo = delete vid (repo s), vectorstore = Some vs'\<rparr>))
        \<and> (\<forall>vs vs'. vectorstore s = Some vs \<and> vs_delete_video d vid vs = (None, vs') \<longrightarrow>
              remove_video d vid s = (Inr (), \<lparr>repo = delete vid (repo s), vectorstore = Some vs'\<rparr>))
        \<and> (vectorstore s = None \<longrightarrow>
              remove_video d vid s = (Inr (), \<lparr>repo = delete vid (repo s), vectorstore = None\<rparr>)))"
proof -
  have absent: "remove_video d vid s = (Inl (VideoNotFoundError (''Video not found: '' @ vid)), s)"
    if "\<not> exists_video (repo s) vid"
    using that by (simp add: remove_video_def)
  have store: "repo (snd (remove_video d vid s)) = delete vid (repo s)"
    if "exists_video (repo s) vid"
    using that by (auto simp: remove_video_def Let_def split: option.splits prod.splits)
  have purge_raises:
    "remove_video d vid s = (Inl e, \<lparr>repo = delete vid (repo s), vectorstore = Some vs'\<rparr>)"
    if "exists_video (repo s) vid" "vectorstore s = Some vs" "vs_delete_video d vid vs = (Some e, vs')"
    for vs e vs'
    using that by (cases s) (simp add: remove_video_def Let_def)
  have purge_returns:
    "remove_video d vid s = (Inr (), \<lparr>repo = delete vid (repo s), vectorstore = Some vs'\<rparr>)"
    if "exists_video (repo s) vid" "vectorstore s = Some vs" "vs_delete_video d vid vs = (None, vs')"
    for vs vs'
    using that by (cases s) (simp add: remove_video_def Let_def)
  have no_index:
    "remove_video d vid s = (Inr (), \<lparr>repo = delete vid (repo s), vectorstore = None\<rparr>)"
    if "exists_video (repo s) vid" "vectorstore s = None"
    using that by (cases s) (simp add: remove_video_def Let_def)
  show ?thesis
    using absent store purge_raises purge_returns no_index by simp
qed

theorem remove_video_store_first_witness:
  "exists_video (repo example_service) ''bbbbbbbbbbb''
   \<and> remove_video deps_purge_fails ''bbbbbbbbbbb'' example_service
       = (Inl (OtherException ''index unavailable''),
          \<lparr>repo = delete ''bbbbbbbbbbb'' library, vectorstore = Some empty_collection\<rparr>)
   \<and> get (repo (snd (remove_video deps_purge_fails ''bbbbbbbbbbb'' example_service)))
        ''bbbbbbbbbbb'' = None
   \<and> \<not> exists_video (repo example_service) ''zzzzzzzzzzz''
   \<and> remove_video deps_purge_fails ''zzzzzzzzzzz'' example_service
       = (Inl (VideoNotFoundError ''Video not found: zzzzzzzzzzz''), example_service)"
proof -
  have present: "exists_video (repo example_service) ''bbbbbbbbbbb''"
    by code_simp
  have absent: "\<not> exists_video (repo example_service) ''zzzzzzzzzzz''"
    by code_simp
  have index: "vectorstore example_service = Some empty_collection"
    and store: "repo example_service = library"
    by (simp_all add: example_service_def)
  have purge: "vs_delete_video deps_purge_fails ''bbbbbbbbbbb'' empty_collection
                 = (Some (OtherException ''index unavailable''), empty_collection)"
    by (simp add: deps_purge_fails_def purge_fails_def)
  show ?thesis
    using remove_video_store_first [of example_service "''bbbbbbbbbbb''" deps_purge_fails]
      remove_video_store_first [of example_service "''zzzzzzzzzzz''" deps_purge_fails]
      present absent index purge
    by (simp add: store)
qed

text \<open>
  Claim C6. \<open>add_video\<close> with a URL whose identifier is already stored fails with
  AlreadyExists and leaves store and index exactly as they were, so the stored record is
  neither merged nor overwritten. The check comes before the extractor is called: the
  outcome is the same whatever the extractor, the classifier and the vector store would
  do.
\<close>

theorem add_video_rejects_duplicate:
  assumes "parse_video_id d url = Inr vid" and "exists_video (repo s) vid"
  shows "add_video d url s =
           (Inl (VideoAlreadyExistsError
                  (''Video already in library: '' @ vid
                   @ ''. Use remove_video() first to re-ingest.'')), s)
       \<and> (\<forall>d'. parse_video_id d' url = parse_video_id d url \<longrightarrow>
              add_video d' url s = add_video d url s)"
  using assms by (simp add: add_video_def already_exists_msg_def)

theorem add_video_rejects_duplicate_witness:
  "parse_video_id deps_llm_up ''https://www.youtube.com/watch?v=bbbbbbbbbbb'' = Inr ''bbbbbbbbbbb''
   \<and> exists_video (repo example_service) ''bbbbbbbbbbb''
   \<and> add_video deps_llm_up ''https://www.youtube.com/watch?v=bbbbbbbbbbb'' example_service
       = (Inl (VideoAlreadyExistsError
            ''Video already in library: bbbbbbbbbbb. Use remove_video() first to re-ingest.''),
          example_service)"
proof -
  have parsed: "parse_video_id deps_llm_up ''https://www.youtube.com/watch?v=bbbbbbbbbbb''
                  = Inr ''bbbbbbbbbbb''"
    by code_simp
  have present: "exists_video (repo example_service) ''bbbbbbbbbbb''"
    by code_simp
  show ?thesis
    using add_video_rejects_duplicate [OF parsed present] parsed present by simp
qed

text \<open>
  Claim C8. During \<open>add_video\<close> a failure of the classifier with its typed error
  (\<open>LLMError\<close>) is caught: the call succeeds and returns the entity as it was extracted and
  saved, with no tags attached. The same failure during an explicit \<open>classify_video\<close>
  comes back to the caller as the failure of the call, and nothing is changed. A
  successful \<open>classify_video\<close> stores exactly the new tags in place of the old ones.
\<close>

theorem classify_best_effort_in_add_strict_when_explicit:
  "(parse_video_id d url = Inr vid \<and> \<not> exists_video (repo s) vid
      \<and> extract_video d url = Inr video \<and> video_id video = vid
      \<and> fst (index_step d video (s\<lparr>repo := save video (repo s)\<rparr>)) = None
      \<and> llm_available d
      \<and> classify d (title video) (description video) (channel video) = Inl (LLMError msg)
    \<longrightarrow> fst (add_video d url s) = Inr video
        \<and> repo (snd (add_video d url s)) = save video (repo s)
        \<and> get (repo (snd (add_video d url s))) vid = Some video
        \<and> (tags video = [] \<longrightarrow>
              (\<exists>v. fst (add_video d url s) = Inr v \<and> tags v = []
                  \<and> get (repo (snd (add_video d url s))) vid = Some v)))
   \<and> (get (repo s) vid = Some stored \<and> llm_available d
        \<and> classify d (title stored) (description stored) (channel stored) = Inl e
      \<longrightarrow> classify_video d vid s = (Inl e, s))
   \<and> (get (repo s) vid = Some stored \<and> llm_available d
        \<and> classify d (title stored) (description stored) (channel stored) = Inr new_tags
      \<longrightarrow> fst (classify_video d vid s) = Inr new_tags
          \<and> get (repo (snd (classify_video d vid s))) vid = Some (stored\<lparr>tags := new_tags\<rparr>)
          \<and> vectorstore (snd (classify_video d vid s)) = vectorstore s)"
proof -
  have caught: "fst (add_video d url s) = Inr video
        \<and> repo (snd (add_video d url s)) = save video (repo s)
        \<and> get (repo (snd (add_video d url s))) vid = Some video"
    if h: "parse_video_id d url = Inr vid" "\<not> exists_video (repo s) vid"
      "extract_video d url = Inr video" "video_id video = vid"
      "fst (index_step d video (s\<lparr>repo := save video (repo s)\<rparr>)) = None"
      "llm_available d"
      "classify d (title video) (description video) (channel video) = Inl (LLMError msg)"
  proof -
    obtain s1 where s1: "index_step d video (s\<lparr>repo := save video (repo s)\<rparr>) = (None, s1)"
      using h(5) by (cases "index_step d video (s\<lparr>repo := save video (repo s)\<rparr>)") simp
    have repo1: "repo s1 = save video (repo s)"
      using repo_index_step [of d video "s\<lparr>repo := save video (repo s)\<rparr>"] s1 by simp
    have "add_video d url s = (Inr video, s1)"
      using h s1 by (simp add: add_video_def classify_step_def)
    moreover have "get (save video (repo s)) vid = Some video"
      using h(2,4) get_save_new [of "repo s" video] by (simp add: exists_video_get)
    ultimately show ?thesis
      using repo1 by simp
  qed
  have strict: "classify_video d vid s = (Inl e, s)"
    if "get (repo s) vid = Some stored" "llm_available d"
      "classify d (title stored) (description stored) (channel stored) = Inl e"
    using that by (simp add: classify_video_def get_info_def)
  have replaced: "fst (classify_video d vid s) = Inr new_tags
          \<and> get (repo (snd (classify_video d vid s))) vid = Some (stored\<lparr>tags := new_tags\<rparr>)
          \<and> vectorstore (snd (classify_video d vid s)) = vectorstore s"
    if "get (repo s) vid = Some stored" "llm_available d"
      "classify d (title stored) (description stored) (channel stored) = Inr new_tags"
  proof -
    have vid: "video_id stored = vid"
      using that(1) by (simp add: get_Some_mem)
    have "get (save (stored\<lparr>tags := new_tags\<rparr>) (repo s)) (video_id (stored\<lparr>tags := new_tags\<rparr>))
            = Some (on_conflict_update (stored\<lparr>tags := new_tags\<rparr>) stored)"
      using that(1) vid by (intro get_save_existing) simp
    moreover have "on_conflict_update (stored\<lparr>tags := new_tags\<rparr>) stored = stored\<lparr>tags := new_tags\<rparr>"
      by (simp add: on_conflict_update_def)
    ultimately show ?thesis
      using that vid by (simp add: classify_video_def get_info_def)
  qed
  have saved: "get (save video (repo s)) vid = Some video"
    if "\<not> exists_video (repo s) vid" "video_id video = vid"
    using that get_save_new [of "repo s" video] by (simp add: exists_video_get)
  show ?thesis
    by (intro conjI impI; elim conjE) (simp_all add: caught strict replaced saved)
qed

theorem classify_best_effort_in_add_strict_when_explicit_witness:
  "parse_video_id deps_llm_down ''https://www.youtube.com/watch?v=dQw4w9WgXcQ'' = Inr ''dQw4w9WgXcQ''
   \<and> \<not> exists_video (repo example_service) ''dQw4w9WgXcQ''
   \<and> extract_video deps_llm_down ''https://www.youtube.com/watch?v=dQw4w9WgXcQ'' = Inr video_new
   \<and> llm_available deps_llm_down
   \<and> classify deps_llm_down (title video_new) (description video_new) (channel video_new)
       = Inl (LLMError ''LLM request failed'')
   \<and> fst (add_video deps_llm_down ''https://www.youtube.com/watch?v=dQw4w9WgXcQ'' example_service)
       = Inr video_new
   \<and> tags video_new = []
   \<and> get (repo (snd (add_video deps_llm_down ''https://www.youtube.com/watch?v=dQw4w9WgXcQ''
                        example_service))) ''dQw4w9WgXcQ'' = Some video_new
   \<and> get (repo example_service) ''bbbbbbbbbbb'' = Some video_b \<and> tags video_b = [''AI'']
   \<and> classify_video deps_llm_down ''bbbbbbbbbbb'' example_service
       = (Inl (LLMError ''LLM request failed''), example_service)
   \<and> fst (classify_video deps_llm_up ''bbbbbbbbbbb'' example_service) = Inr [''Debate'', ''Politics'']
   \<and> get (repo (snd (classify_video deps_llm_up ''bbbbbbbbbbb'' example_service))) ''bbbbbbbbbbb''
       = Some (video_b\<lparr>tags := [''Debate'', ''Politics'']\<rparr>)"
proof -
  let ?url = "''https://www.youtube.com/watch?v=dQw4w9WgXcQ''"
  have parsed: "parse_video_id deps_llm_down ?url = Inr ''dQw4w9WgXcQ''"
    by code_simp
  have fresh: "\<not> exists_video (repo example_service) ''dQw4w9WgXcQ''"
    by code_simp
  have extracted: "extract_video deps_llm_down ?url = Inr video_new"
    by code_simp
  have ident: "video_id video_new = ''dQw4w9WgXcQ''" and no_tags: "tags video_new = []"
    by (simp_all add: video_new_def)
  have indexed: "fst (index_step deps_llm_down video_new
                       (example_service\<lparr>repo := save video_new (repo example_service)\<rparr>)) = None"
    by code_simp
  have up: "llm_available deps_llm_down" "llm_available deps_llm_up"
    by (simp_all add: deps_llm_down_def deps_llm_up_def chroma_deps_def)
  have fails: "classify deps_llm_down t dsc c = Inl (LLMError ''LLM request failed'')" for t dsc c
    by (simp add: deps_llm_down_def chroma_deps_def classify_fails_def)
  have answers: "classify deps_llm_up t dsc c = Inr [''Debate'', ''Politics'']" for t dsc c
    by (simp add: deps_llm_up_def chroma_deps_def classify_answers_def)
  have stored: "get (repo example_service) ''bbbbbbbbbbb'' = Some video_b"
    by code_simp
  have old_tags: "tags video_b = [''AI'']"
    by (simp add: video_b_def)
  have added: "fst (add_video deps_llm_down ?url example_service) = Inr video_new
      \<and> get (repo (snd (add_video deps_llm_down ?url example_service))) ''dQw4w9WgXcQ''
          = Some video_new"
  proof -
    have "fst (add_video deps_llm_down ?url example_service) = Inr video_new
        \<and> repo (snd (add_video deps_llm_down ?url example_service))
            = save video_new (repo example_service)
        \<and> get (repo (snd (add_video deps_llm_down ?url example_service))) ''dQw4w9WgXcQ''
            = Some video_new
        \<and> (tags video_new = [] \<longrightarrow>
              (\<exists>v. fst (add_video deps_llm_down ?url example_service) = Inr v \<and> tags v = []
                  \<and> get (repo (snd (add_video deps_llm_down ?url example_service)))
                       ''dQw4w9WgXcQ'' = Some v))"
      by (rule classify_best_effort_in_add_strict_when_explicit
                 [where d = deps_llm_down and url = ?url and vid = "''dQw4w9WgXcQ''"
                     and s = example_service and video = video_new
                     and msg = "''LLM request failed''", THEN conjunct1, THEN mp])
         (simp add: parsed fresh extracted ident indexed up fails)
    then show ?thesis
      by blast
  qed
  have strict: "classify_video deps_llm_down ''bbbbbbbbbbb'' example_service
       = (Inl (LLMError ''LLM request failed''), example_service)"
    by (rule classify_best_effort_in_add_strict_when_explicit
               [where d = deps_llm_down and s = example_service
                   and vid = "''bbbbbbbbbbb''" and stored = video_b,
                THEN conjunct2, THEN conjunct1, THEN mp])
       (simp add: stored up fails)
  have replaced: "fst (classify_video deps_llm_up ''bbbbbbbbbbb'' example_service)
        = Inr [''Debate'', ''Politics'']
      \<and> get (repo (snd (classify_video deps_llm_up ''bbbbbbbbbbb'' example_service))) ''bbbbbbbbbbb''
        = Some (video_b\<lparr>tags := [''Debate'', ''Politics'']\<rparr>)"
  proof -
    have "fst (classify_video deps_llm_up ''bbbbbbbbbbb'' example_service)
        = Inr [''Debate'', ''Politics'']
      \<and> get (repo (snd (classify_video deps_llm_up ''bbbbbbbbbbb'' example_service))) ''bbbbbbbbbbb''
        = Some (video_b\<lparr>tags := [''Debate'', ''Politics'']\<rparr>)
      \<and> vectorstore (snd (classify_video deps_llm_up ''bbbbbbbbbbb'' example_service))
        = vectorstore example_service"
      by (rule classify_best_effort_in_add_strict_when_explicit
                 [where d = deps_llm_up and s = example_service
                     and vid = "''bbbbbbbbbbb''" and stored = video_b,
                  THEN conjunct2, THEN conjunct2, THEN mp])
         (simp add: stored up answers)
    then show ?thesis
      by blast
  qed
  show ?thesis
    using parsed fresh extracted up(1) fails added no_tags stored old_tags strict replaced
    by simp
qed

section \<open>Facts about fragment keys and the engine\<close>

lemma fragment_key_inj:
  "fragment_key vid i = fragment_key vid' j \<Longrightarrow> vid = vid' \<and> i = j"
proof -
  assume "fragment_key vid i = fragment_key vid' j"
  then have "vid @ CHR ''_'' # str_nat i = vid' @ CHR ''_'' # str_nat j"
    by (simp add: fragment_key_def)
  then have "vid = vid' \<and> str_nat i = str_nat j"
    by (rule split_at_last_separator) (rule no_underscore_in_str_nat)+
  then show ?thesis
    by (simp add: str_nat_inj)
qed

lemma build_fragments_eq:
  "build_fragments fa vid isegs
     = map (\<lambda>iseg. make_fragment fa vid (fst iseg) (snd iseg))
           (filter (\<lambda>iseg. strip (seg_text (snd iseg)) \<noteq> []) isegs)"
  by (induction isegs) simp_all

lemma frag_id_make_fragment [simp]: "frag_id (make_fragment fa vid i seg) = fragment_key vid i"
  by (simp add: make_fragment_def)

lemma meta_video_id_make_fragment [simp]: "meta_video_id (make_fragment fa vid i seg) = vid"
  by (simp add: make_fragment_def)

lemma meta_segment_index_make_fragment [simp]:
  "meta_segment_index (make_fragment fa vid i seg) = i"
  by (simp add: make_fragment_def)

lemma keyed_make_fragment [simp]: "keyed (make_fragment fa vid i seg)"
  by (simp add: keyed_def)

lemma build_fragments_owner:
  "f \<in> set (build_fragments fa vid isegs) \<Longrightarrow> meta_video_id f = vid \<and> keyed f"
  by (auto simp: build_fragments_eq)

lemma build_fragments_ids:
  "map frag_id (build_fragments fa vid isegs)
     = map (fragment_key vid) (map fst (filter (\<lambda>iseg. strip (seg_text (snd iseg)) \<noteq> []) isegs))"
  by (simp add: build_fragments_eq)

lemma distinct_build_fragments_ids:
  "distinct (map fst isegs) \<Longrightarrow> distinct (map frag_id (build_fragments fa vid isegs))"
proof -
  assume "distinct (map fst isegs)"
  then have "distinct (map fst (filter (\<lambda>iseg. strip (seg_text (snd iseg)) \<noteq> []) isegs))"
    by (rule distinct_map_filter)
  moreover have "distinct (map (fragment_key vid) ks)" if "distinct ks" for ks
    using that by (auto simp: distinct_map intro!: inj_onI dest: fragment_key_inj)
  ultimately show ?thesis
    unfolding build_fragments_ids by blast
qed

lemma map_fst_enumerate: "map fst (enumerate k xs) = [k..<k + length xs]"
  by (simp add: enumerate_eq_zip)

lemma length_build_fragments:
  "length (build_fragments fa vid (enumerate k segs)) = length (filter nonblank segs)"
proof -
  have "filter (\<lambda>iseg. strip (seg_text (snd iseg)) \<noteq> []) (enumerate k segs)
          = filter (nonblank \<circ> snd) (enumerate k segs)"
    by (simp add: nonblank_def comp_def)
  then have "length (build_fragments fa vid (enumerate k segs))
          = length (filter (nonblank \<circ> snd) (enumerate k segs))"
    by (simp add: build_fragments_eq)
  also have "\<dots> = length (map snd (filter (nonblank \<circ> snd) (enumerate k segs)))"
    by simp
  also have "\<dots> = length (filter nonblank (map snd (enumerate k segs)))"
    by (simp only: filter_map)
  also have "\<dots> = length (filter nonblank segs)"
    by (simp add: enumerate_eq_zip)
  finally show ?thesis .
qed

lemma enumerate_nth: "enumerate 0 xs = map (\<lambda>i. (i, xs ! i)) [0..<length xs]"
  by (rule nth_equalityI) (simp_all add: nth_enumerate_eq)

lemma build_fragments_positions:
  "build_fragments fa vid (enumerate 0 segs)
     = map (\<lambda>i. make_fragment fa vid i (segs ! i)) (filter (\<lambda>i. nonblank (segs ! i)) [0..<length segs])"
  by (simp add: build_fragments_eq enumerate_nth filter_map comp_def nonblank_def)


lemma add_new_fresh:
  "distinct (map frag_id batch) \<Longrightarrow> set (map frag_id batch) \<inter> set (map frag_id es) = {} \<Longrightarrow>
   add_new es batch = es @ batch"
proof (induction batch arbitrary: es)
  case Nil
  then show ?case by simp
next
  case (Cons f batch)
  from Cons.prems have "frag_id f \<notin> set (map frag_id es)"
    by auto
  moreover from Cons.prems have "add_new (es @ [f]) batch = (es @ [f]) @ batch"
    by (intro Cons.IH) auto
  ultimately show ?case by simp
qed

lemma add_new_append: "add_new (add_new es b1) b2 = add_new es (b1 @ b2)"
  by (induction b1 arbitrary: es) simp_all

lemma slice_batch: "slice b (b + BATCH_SIZE) docs = take BATCH_SIZE (drop b docs)"
  by (simp add: slice_def)

lemma collection_add_ok:
  assumes "batch \<noteq> []" "length batch \<le> max_batch_size c" "distinct (map frag_id batch)"
  shows "collection_add batch c = Inr (c\<lparr>entries := add_new (entries c) batch\<rparr>)"
  using assms by (simp add: collection_add_def)

lemma add_batches_all:
  assumes "BATCH_SIZE \<le> max_batch_size c" and "distinct (map frag_id docs)"
  shows "add_batches docs b n c
           = (Inr (n + (length docs - b)), c\<lparr>entries := add_new (entries c) (drop b docs)\<rparr>)"
  using assms
proof (induction docs b n c rule: add_batches.induct)
  case (1 docs b n c)
  show ?case
  proof (cases "b < length docs")
    case False
    then show ?thesis
      by (subst add_batches.simps) simp
  next
    case True
    let ?batch = "slice b (b + BATCH_SIZE) docs"
    let ?c' = "c\<lparr>entries := add_new (entries c) ?batch\<rparr>"
    have positive: "0 < BATCH_SIZE"
      by (simp add: BATCH_SIZE_def)
    have nonempty: "?batch \<noteq> []"
      using True positive by (simp add: slice_batch)
    have small: "length ?batch \<le> max_batch_size c"
      using "1.prems"(1) by (simp add: slice_batch)
    have "distinct (map frag_id (drop b docs))"
      using "1.prems"(2) by (simp add: distinct_drop flip: drop_map)
    then have unique: "distinct (map frag_id ?batch)"
      by (simp add: slice_batch distinct_take flip: take_map)
    have added: "collection_add ?batch c = Inr ?c'"
      using nonempty small unique by (rule collection_add_ok)
    have rest: "add_batches docs (b + BATCH_SIZE) (n + length ?batch) ?c'
        = (Inr (n + length ?batch + (length docs - (b + BATCH_SIZE))),
           ?c'\<lparr>entries := add_new (entries ?c') (drop (b + BATCH_SIZE) docs)\<rparr>)"
      using True added "1.prems" by (intro "1.IH") simp_all
    have count: "length ?batch + (length docs - (b + BATCH_SIZE)) = length docs - b"
      by (simp add: slice_batch)
    have "drop (b + BATCH_SIZE) docs = drop BATCH_SIZE (drop b docs)"
      by (simp add: add.commute)
    then have "?batch @ drop (b + BATCH_SIZE) docs = drop b docs"
      by (simp only: slice_batch append_take_drop_id)
    then have all: "add_new (entries ?c') (drop (b + BATCH_SIZE) docs)
                      = add_new (entries c) (drop b docs)"
      by (simp add: add_new_append)
    have "add_batches docs b n c = add_batches docs (b + BATCH_SIZE) (n + length ?batch) ?c'"
      using True added by (subst add_batches.simps) (simp add: Let_def)
    also note rest
    finally show ?thesis
      using count all by (simp add: add.assoc)
  qed
qed

section \<open>Facts about the semantic index\<close>

lemma entries_delete_video [simp]:
  "entries (delete_video vid c) = filter (\<lambda>f. meta_video_id f \<noteq> vid) (entries c)"
  by (simp add: delete_video_def collection_delete_def)

lemma max_batch_size_delete_video [simp]:
  "max_batch_size (delete_video vid c) = max_batch_size c"
  by (simp add: delete_video_def collection_delete_def)

lemma collection_ok_delete_video: "collection_ok c \<Longrightarrow> collection_ok (delete_video vid c)"
  by (auto simp: collection_ok_def list_all_iff distinct_map_filter)

lemma distinct_enumerate_fragments:
  "distinct (map frag_id (build_fragments fa vid (enumerate k segs)))"
  by (rule distinct_build_fragments_ids) (simp add: map_fst_enumerate)

lemma index_video_nonempty:
  assumes "BATCH_SIZE \<le> max_batch_size c" and "segs \<noteq> []"
  shows "index_video fa vid segs c
           = (Inr (length (filter nonblank segs)),
              (delete_video vid c)\<lparr>entries :=
                 add_new (entries (delete_video vid c)) (build_fragments fa vid (enumerate 0 segs))\<rparr>)"
proof -
  have "add_batches (build_fragments fa vid (enumerate 0 segs)) 0 0 (delete_video vid c)
          = (Inr (0 + (length (build_fragments fa vid (enumerate 0 segs)) - 0)),
             (delete_video vid c)\<lparr>entries := add_new (entries (delete_video vid c))
                (drop 0 (build_fragments fa vid (enumerate 0 segs)))\<rparr>)"
    using assms(1) by (intro add_batches_all distinct_enumerate_fragments) simp
  then show ?thesis
    using assms(2) by (simp add: index_video_def length_build_fragments)
qed

lemma index_video_count:
  assumes "BATCH_SIZE \<le> max_batch_size c"
  shows "fst (index_video fa vid segs c) = Inr (length (filter nonblank segs))"
proof (cases "segs = []")
  case True
  then show ?thesis by (simp add: index_video_def)
next
  case False
  with assms show ?thesis by (simp add: index_video_nonempty)
qed

lemma new_keys_fresh:
  assumes "collection_ok c"
  shows "set (map frag_id (build_fragments fa vid isegs))
           \<inter> set (map frag_id (entries (delete_video vid c))) = {}"
proof -
  have False if new: "f \<in> set (build_fragments fa vid isegs)"
    and old: "e \<in> set (entries c)" "meta_video_id e \<noteq> vid" and same: "frag_id f = frag_id e"
    for f e
  proof -
    from new have "frag_id f = fragment_key vid (meta_segment_index f)"
      using build_fragments_owner [of f fa vid isegs] by (simp add: keyed_def)
    moreover from assms old(1) have "frag_id e = fragment_key (meta_video_id e) (meta_segment_index e)"
      by (simp add: collection_ok_def list_all_iff keyed_def)
    ultimately have "vid = meta_video_id e"
      using same fragment_key_inj by metis
    with old(2) show False by simp
  qed
  then show ?thesis
    by auto
qed

lemma index_video_entries:
  assumes "BATCH_SIZE \<le> max_batch_size c" and "collection_ok c" and "segs \<noteq> []"
  shows "entries (snd (index_video fa vid segs c))
           = filter (\<lambda>f. meta_video_id f \<noteq> vid) (entries c)
             @ build_fragments fa vid (enumerate 0 segs)"
proof -
  have "add_new (entries (delete_video vid c)) (build_fragments fa vid (enumerate 0 segs))
          = entries (delete_video vid c) @ build_fragments fa vid (enumerate 0 segs)"
    using distinct_enumerate_fragments new_keys_fresh [OF assms(2)] by (rule add_new_fresh)
  then show ?thesis
    using assms(1,3) by (simp add: index_video_nonempty)
qed

lemma max_batch_size_index_video [simp]:
  "max_batch_size (snd (index_video fa vid segs c)) = max_batch_size c"
proof -
  have "max_batch_size (snd (add_batches docs b n c')) = max_batch_size c'" for docs b n c'
  proof (induction docs b n c' rule: add_batches.induct)
    case (1 docs b n c')
    show ?case
    proof (cases "b < length docs")
      case False
      then show ?thesis by (subst add_batches.simps) simp
    next
      case True
      show ?thesis
      proof (cases "collection_add (slice b (b + BATCH_SIZE) docs) c'")
        case (Inl e)
        with True show ?thesis by (subst add_batches.simps) (simp add: Let_def)
      next
        case (Inr c'')
        then have "max_batch_size c'' = max_batch_size c'"
          by (auto simp: collection_add_def split: if_splits)
        moreover have "max_batch_size (snd (add_batches docs (b + BATCH_SIZE)
            (n + length (slice b (b + BATCH_SIZE) docs)) c'')) = max_batch_size c''"
          using True Inr by (intro "1.IH") simp_all
        ultimately show ?thesis
          using True Inr by (subst add_batches.simps) (simp add: Let_def)
      qed
    qed
  qed
  then show ?thesis
    by (simp add: index_video_def)
qed

lemma fragments_of_index_video:
  assumes "BATCH_SIZE \<le> max_batch_size c" and "collection_ok c" and "segs \<noteq> []"
  shows "fragments_of vid (snd (index_video fa vid segs c)) = build_fragments fa vid (enumerate 0 segs)"
proof -
  have "filter (\<lambda>f. meta_video_id f = vid) (build_fragments fa vid (enumerate 0 segs))
          = build_fragments fa vid (enumerate 0 segs)"
    by (rule filter_True) (simp add: build_fragments_owner)
  moreover have "filter (\<lambda>f. meta_video_id f = vid)
                   (filter (\<lambda>f. meta_video_id f \<noteq> vid) (entries c)) = []"
    by (simp add: filter_empty_conv)
  ultimately show ?thesis
    using index_video_entries [OF assms] by (simp add: fragments_of_def)
qed

lemma set_add_new: "set (add_new es batch) \<subseteq> set es \<union> set batch"
proof (induction batch arbitrary: es)
  case Nil
  then show ?case by simp
next
  case (Cons f batch)
  show ?case
    using Cons.IH [of es] Cons.IH [of "es @ [f]"] by auto
qed

lemma distinct_add_new:
  "distinct (map frag_id es) \<Longrightarrow> distinct (map frag_id (add_new es batch))"
  by (induction batch arbitrary: es) simp_all

lemma collection_ok_add_batches:
  "collection_ok c \<Longrightarrow> list_all keyed docs \<Longrightarrow> collection_ok (snd (add_batches docs b n c))"
proof (induction docs b n c rule: add_batches.induct)
  case (1 docs b n c)
  show ?case
  proof (cases "b < length docs")
    case False
    with "1.prems" show ?thesis
      by (subst add_batches.simps) simp
  next
    case True
    show ?thesis
    proof (cases "collection_add (slice b (b + BATCH_SIZE) docs) c")
      case (Inl e)
      with True "1.prems" show ?thesis
        by (subst add_batches.simps) (simp add: Let_def)
    next
      case (Inr c')
      then have entries': "entries c' = add_new (entries c) (slice b (b + BATCH_SIZE) docs)"
        by (auto simp: collection_add_def split: if_splits)
      have "set (slice b (b + BATCH_SIZE) docs) \<subseteq> set docs"
        unfolding slice_batch using set_take_subset set_drop_subset by fastforce
      then have "set (entries c') \<subseteq> set (entries c) \<union> set docs"
        using set_add_new [of "entries c" "slice b (b + BATCH_SIZE) docs"] entries' by auto
      then have "list_all keyed (entries c')"
        using "1.prems" by (auto simp: collection_ok_def list_all_iff)
      moreover have "distinct (map frag_id (entries c'))"
        using "1.prems"(1) entries' by (simp add: collection_ok_def distinct_add_new)
      ultimately have "collection_ok c'"
        by (simp add: collection_ok_def)
      then have "collection_ok (snd (add_batches docs (b + BATCH_SIZE)
                   (n + length (slice b (b + BATCH_SIZE) docs)) c'))"
        using True Inr "1.prems"(2) by (intro "1.IH") simp_all
      then show ?thesis
        using True Inr by (subst add_batches.simps) (simp add: Let_def)
    qed
  qed
qed

lemma collection_ok_index_video:
  assumes "collection_ok c"
  shows "collection_ok (snd (index_video fa vid segs c))"
proof (cases "segs = []")
  case True
  with assms show ?thesis by (simp add: index_video_def)
next
  case False
  have "collection_ok (delete_video vid c)"
    using assms by (rule collection_ok_delete_video)
  moreover have "list_all keyed (build_fragments fa vid (enumerate 0 segs))"
    by (simp add: list_all_iff build_fragments_owner)
  ultimately have "collection_ok (snd (add_batches (build_fragments fa vid (enumerate 0 segs))
                                         0 0 (delete_video vid c)))"
    by (rule collection_ok_add_batches)
  with False show ?thesis
    by (simp add: index_video_def)
qed

lemma written_by_store_ok: "written_by_store c \<Longrightarrow> collection_ok c"
proof (induction rule: written_by_store.induct)
  case (created m)
  show ?case by (simp add: collection_ok_def)
next
  case (indexed c float_add vid segments)
  then show ?case by (simp add: collection_ok_index_video)
next
  case (deleted c vid)
  then show ?case by (simp add: collection_ok_delete_video)
qed

lemma written_by_store_empty: "written_by_store empty_collection"
  unfolding empty_collection_def by (rule written_by_store.created)

lemma collection_ok_empty: "collection_ok empty_collection"
  by (simp add: collection_ok_def empty_collection_def)

lemma add_batches_returns_count:
  "fst (add_batches docs b n c) = Inr m \<Longrightarrow> m = n + (length docs - b)"
proof (induction docs b n c rule: add_batches.induct)
  case (1 docs b n c)
  show ?case
  proof (cases "b < length docs")
    case False
    with "1.prems" show ?thesis
      by (subst (asm) add_batches.simps) simp
  next
    case True
    show ?thesis
    proof (cases "collection_add (slice b (b + BATCH_SIZE) docs) c")
      case (Inl e)
      with True "1.prems" show ?thesis
        by (subst (asm) add_batches.simps) (simp add: Let_def)
    next
      case (Inr c')
      have "fst (add_batches docs (b + BATCH_SIZE)
                   (n + length (slice b (b + BATCH_SIZE) docs)) c') = Inr m"
        using True Inr "1.prems" by (subst (asm) add_batches.simps) (simp add: Let_def)
      then have "m = n + length (slice b (b + BATCH_SIZE) docs) + (length docs - (b + BATCH_SIZE))"
        using True Inr by (intro "1.IH") simp_all
      then show ?thesis
        by (simp add: slice_batch)
    qed
  qed
qed

lemma add_batches_entries_subset:
  "set (entries (snd (add_batches docs b n c))) \<subseteq> set (entries c) \<union> set docs"
proof (induction docs b n c rule: add_batches.induct)
  case (1 docs b n c)
  show ?case
  proof (cases "b < length docs")
    case False
    then show ?thesis
      by (subst add_batches.simps) simp
  next
    case True
    show ?thesis
    proof (cases "collection_add (slice b (b + BATCH_SIZE) docs) c")
      case (Inl e)
      with True show ?thesis
        by (subst add_batches.simps) (simp add: Let_def)
    next
      case (Inr c')
      then have "entries c' = add_new (entries c) (slice b (b + BATCH_SIZE) docs)"
        by (auto simp: collection_add_def split: if_splits)
      moreover have "set (slice b (b + BATCH_SIZE) docs) \<subseteq> set docs"
        unfolding slice_batch using set_take_subset set_drop_subset by fastforce
      ultimately have added: "set (entries c') \<subseteq> set (entries c) \<union> set docs"
        using set_add_new [of "entries c" "slice b (b + BATCH_SIZE) docs"] by auto
      have "set (entries (snd (add_batches docs (b + BATCH_SIZE)
                (n + length (slice b (b + BATCH_SIZE) docs)) c'))) \<subseteq> set (entries c') \<union> set docs"
        using True Inr by (intro "1.IH") simp_all
      with added show ?thesis
        using True Inr by (subst add_batches.simps) (auto simp: Let_def)
    qed
  qed
qed

lemma index_video_returns_count:
  "fst (index_video fa vid segs c) = Inr n \<Longrightarrow> n = length (filter nonblank segs)"
proof (cases "segs = []")
  case True
  assume "fst (index_video fa vid segs c) = Inr n"
  with True show ?thesis
    by (simp add: index_video_def)
next
  case False
  assume "fst (index_video fa vid segs c) = Inr n"
  with False have "fst (add_batches (build_fragments fa vid (enumerate 0 segs)) 0 0
                          (delete_video vid c)) = Inr n"
    by (simp add: index_video_def)
  then have "n = 0 + (length (build_fragments fa vid (enumerate 0 segs)) - 0)"
    by (rule add_batches_returns_count)
  then show ?thesis
    by (simp add: length_build_fragments)
qed

lemma fragments_of_index_video_subset:
  assumes "segs \<noteq> []"
  shows "set (fragments_of vid (snd (index_video fa vid segs c)))
           \<subseteq> set (build_fragments fa vid (enumerate 0 segs))"
proof
  fix f
  assume "f \<in> set (fragments_of vid (snd (index_video fa vid segs c)))"
  then have owner: "meta_video_id f = vid"
    and stored: "f \<in> set (entries (snd (add_batches (build_fragments fa vid (enumerate 0 segs))
                                            0 0 (delete_video vid c))))"
    using assms by (simp_all add: fragments_of_def index_video_def)
  from stored have "f \<in> set (entries (delete_video vid c))
                      \<union> set (build_fragments fa vid (enumerate 0 segs))"
    using add_batches_entries_subset by blast
  with owner show "f \<in> set (build_fragments fa vid (enumerate 0 segs))"
    by simp
qed

section \<open>Properties of the semantic index\<close>

text \<open>
  Claim C10. \<open>index_video\<close> skips every segment whose text is empty after trimming: it
  stores no fragment for it and does not count it, so the returned total is the number
  of segments with non-empty trimmed text, which can be smaller than the length of the
  input. The fragments stored keep the position each segment had in the input, in the
  key and in the metadata, so the key suffixes can have gaps. Whenever \<open>index_video\<close>
  returns, it returns that number, and it does return when the engine admits batches of
  \<open>BATCH_SIZE\<close>; every fragment the video owns afterwards comes from a segment that is
  not blank, at its position; and in a collection that this store has written the
  fragments of the video are exactly those, in order.
\<close>

theorem index_video_skips_blank_segments:
  "(\<forall>n. fst (index_video fa vid segs c) = Inr n \<longrightarrow> n = length (filter nonblank segs))
   \<and> (BATCH_SIZE \<le> max_batch_size c \<longrightarrow>
        fst (index_video fa vid segs c) = Inr (length (filter nonblank segs)))
   \<and> length (filter nonblank segs) \<le> length segs
   \<and> (segs \<noteq> [] \<longrightarrow>
        (\<forall>f \<in> set (fragments_of vid (snd (index_video fa vid segs c))).
           \<exists>i < length segs. nonblank (segs ! i) \<and> f = make_fragment fa vid i (segs ! i)))
   \<and> (BATCH_SIZE \<le> max_batch_size c \<and> written_by_store c \<and> segs \<noteq> [] \<longrightarrow>
        fragments_of vid (snd (index_video fa vid segs c))
          = map (\<lambda>i. make_fragment fa vid i (segs ! i))
                (filter (\<lambda>i. nonblank (segs ! i)) [0..<length segs])
        \<and> map frag_id (fragments_of vid (snd (index_video fa vid segs c)))
          = map (\<lambda>i. vid @ ''_'' @ str_nat i)
                (filter (\<lambda>i. nonblank (segs ! i)) [0..<length segs]))
   \<and> (\<exists>c' segs'. BATCH_SIZE \<le> max_batch_size c' \<and> written_by_store c' \<and> length segs' = 4
        \<and> fst (index_video exact_add ''v'' segs' c') = Inr 2
        \<and> map frag_id (fragments_of ''v'' (snd (index_video exact_add ''v'' segs' c')))
            = [''v_0'', ''v_2''])"
proof -
  have returned: "n = length (filter nonblank segs)"
    if "fst (index_video fa vid segs c) = Inr n" for n
    using that by (rule index_video_returns_count)
  have count: "fst (index_video fa vid segs c) = Inr (length (filter nonblank segs))"
    if "BATCH_SIZE \<le> max_batch_size c"
    using that by (rule index_video_count)
  have origin: "\<exists>i < length segs. nonblank (segs ! i) \<and> f = make_fragment fa vid i (segs ! i)"
    if "segs \<noteq> []" "f \<in> set (fragments_of vid (snd (index_video fa vid segs c)))" for f
  proof -
    have "f \<in> set (build_fragments fa vid (enumerate 0 segs))"
      using fragments_of_index_video_subset [OF that(1)] that(2) by blast
    then show ?thesis
      by (auto simp: build_fragments_positions)
  qed
  have stored: "fragments_of vid (snd (index_video fa vid segs c))
              = map (\<lambda>i. make_fragment fa vid i (segs ! i))
                    (filter (\<lambda>i. nonblank (segs ! i)) [0..<length segs])"
    if "BATCH_SIZE \<le> max_batch_size c" "written_by_store c" "segs \<noteq> []"
    using fragments_of_index_video [OF that(1) written_by_store_ok [OF that(2)] that(3)]
    by (simp add: build_fragments_positions)
  have keys: "map frag_id (fragments_of vid (snd (index_video fa vid segs c)))
              = map (\<lambda>i. vid @ ''_'' @ str_nat i)
                    (filter (\<lambda>i. nonblank (segs ! i)) [0..<length segs])"
    if "BATCH_SIZE \<le> max_batch_size c" "written_by_store c" "segs \<noteq> []"
    using stored [OF that] by (simp add: comp_def fragment_key_def)
  have run: "BATCH_SIZE \<le> max_batch_size empty_collection
      \<and> length [seg1, seg_blank, seg2, seg_nbsp] = 4
      \<and> fst (index_video exact_add ''v'' [seg1, seg_blank, seg2, seg_nbsp] empty_collection) = Inr 2
      \<and> map frag_id (fragments_of ''v'' (snd (index_video exact_add ''v''
            [seg1, seg_blank, seg2, seg_nbsp] empty_collection))) = [''v_0'', ''v_2'']"
    by code_simp
  have gap: "BATCH_SIZE \<le> max_batch_size empty_collection \<and> written_by_store empty_collection
      \<and> length [seg1, seg_blank, seg2, seg_nbsp] = 4
      \<and> fst (index_video exact_add ''v'' [seg1, seg_blank, seg2, seg_nbsp] empty_collection) = Inr 2
      \<and> map frag_id (fragments_of ''v'' (snd (index_video exact_add ''v''
            [seg1, seg_blank, seg2, seg_nbsp] empty_collection))) = [''v_0'', ''v_2'']"
    using run written_by_store_empty by blast
  have example: "\<exists>c' segs'. BATCH_SIZE \<le> max_batch_size c' \<and> written_by_store c' \<and> length segs' = 4
        \<and> fst (index_video exact_add ''v'' segs' c') = Inr 2
        \<and> map frag_id (fragments_of ''v'' (snd (index_video exact_add ''v'' segs' c')))
            = [''v_0'', ''v_2'']"
    by (rule exI [of _ empty_collection], rule exI [of _ "[seg1, seg_blank, seg2, seg_nbsp]"])
       (rule gap)
  show ?thesis
    using returned count origin stored keys example by (intro conjI allI impI ballI) simp_all
qed

theorem index_video_skips_blank_segments_witness:
  "BATCH_SIZE \<le> max_batch_size empty_collection \<and> written_by_store empty_collection
   \<and> filter nonblank [seg1, seg_nbsp, seg2] = [seg1, seg2]
   \<and> fst (index_video exact_add ''v'' [seg1, seg_nbsp, seg2] empty_collection) = Inr 2
   \<and> map frag_id (fragments_of ''v'' (snd (index_video exact_add ''v'' [seg1, seg_nbsp, seg2]
                                              empty_collection))) = [''v_0'', ''v_2'']"
proof -
  have ceiling: "BATCH_SIZE \<le> max_batch_size empty_collection"
    by (simp add: BATCH_SIZE_def empty_collection_def)
  have kept: "filter nonblank [seg1, seg_nbsp, seg2] = [seg1, seg2]"
    by code_simp
  have positions: "filter (\<lambda>i. nonblank ([seg1, seg_nbsp, seg2] ! i))
                     [0..<length [seg1, seg_nbsp, seg2]] = [0, 2]"
    by code_simp
  have keys: "map (\<lambda>i. ''v'' @ ''_'' @ str_nat i) [0, 2] = [''v_0'', ''v_2'']"
    by code_simp
  have several: "[seg1, seg_nbsp, seg2] \<noteq> []"
    by simp
  note run = index_video_skips_blank_segments
               [where fa = exact_add and vid = "''v''" and segs = "[seg1, seg_nbsp, seg2]"
                  and c = empty_collection]
  have "fst (index_video exact_add ''v'' [seg1, seg_nbsp, seg2] empty_collection)
          = Inr (length (filter nonblank [seg1, seg_nbsp, seg2]))"
    using run [THEN conjunct2, THEN conjunct1] ceiling by (rule mp)
  then have count: "fst (index_video exact_add ''v'' [seg1, seg_nbsp, seg2] empty_collection) = Inr 2"
    unfolding kept by simp
  have "fragments_of ''v'' (snd (index_video exact_add ''v'' [seg1, seg_nbsp, seg2]
                                    empty_collection))
          = map (\<lambda>i. make_fragment exact_add ''v'' i ([seg1, seg_nbsp, seg2] ! i))
                (filter (\<lambda>i. nonblank ([seg1, seg_nbsp, seg2] ! i))
                        [0..<length [seg1, seg_nbsp, seg2]])
        \<and> map frag_id (fragments_of ''v'' (snd (index_video exact_add ''v''
                                                [seg1, seg_nbsp, seg2] empty_collection)))
          = map (\<lambda>i. ''v'' @ ''_'' @ str_nat i)
                (filter (\<lambda>i. nonblank ([seg1, seg_nbsp, seg2] ! i))
                        [0..<length [seg1, seg_nbsp, seg2]])"
    by (rule run [THEN conjunct2, THEN conjunct2, THEN conjunct2, THEN conjunct2,
                  THEN conjunct1, THEN mp])
       (simp add: ceiling written_by_store_empty)
  then have "map frag_id (fragments_of ''v'' (snd (index_video exact_add ''v''
                                                [seg1, seg_nbsp, seg2] empty_collection)))
          = map (\<lambda>i. ''v'' @ ''_'' @ str_nat i)
                (filter (\<lambda>i. nonblank ([seg1, seg_nbsp, seg2] ! i))
                        [0..<length [seg1, seg_nbsp, seg2]])"
    by (rule conjunct2)
  then have gaps: "map frag_id (fragments_of ''v'' (snd (index_video exact_add ''v''
                      [seg1, seg_nbsp, seg2] empty_collection))) = [''v_0'', ''v_2'']"
    unfolding positions keys .
  show ?thesis
    using ceiling written_by_store_empty kept count gaps by blast
qed




text \<open>
  Claim C2, as stated: after \<open>index_video\<close> with \<open>s1\<close> and then with \<open>s2\<close> for the same
  video, exactly \<open>len(s2)\<close> fragments are owned by the video. It fails for an empty
  \<open>s2\<close>: the second call returns before deleting, and the fragment of the first call
  stays. It fails for an \<open>s2\<close> with a blank segment, which gets no fragment. And it fails
  against an engine whose ceiling on one batch is below 500: the second call deletes,
  the engine refuses the batch, and no fragment is left.
\<close>

theorem reindex_with_empty_list_counterexample:
  "length (fragments_of ''v'' (snd (index_video exact_add ''v'' []
             (snd (index_video exact_add ''v'' [seg1] empty_collection)))))
     \<noteq> length ([] :: TranscriptSegment list)
   \<and> length (fragments_of ''v'' (snd (index_video exact_add ''v'' [seg_blank]
             (snd (index_video exact_add ''v'' [seg1] empty_collection)))))
     \<noteq> length [seg_blank]
   \<and> length (fragments_of ''v'' (snd (index_video exact_add ''v'' [seg1, seg2]
             (snd (index_video exact_add ''v'' [seg1] narrow_collection)))))
     \<noteq> length [seg1, seg2]"
  by code_simp

text \<open>
  Claim C2, amended. Against an engine whose ceiling on one batch is 500 or more, and
  in a collection that only this store has written, for a non-empty \<open>s2\<close>: after
  \<open>index_video\<close> with \<open>s1\<close> and then with \<open>s2\<close> the fragments owned by the video are exactly
  those of the segments of \<open>s2\<close> with non-empty trimmed text, one each, so their number is
  \<open>len(s2)\<close> when no segment of \<open>s2\<close> is blank, and nothing of the first call is left. For
  an empty \<open>s2\<close> the second call returns 0 and changes nothing.
\<close>

theorem reindex_replaces_fragments:
  assumes "BATCH_SIZE \<le> max_batch_size c" and "written_by_store c"
  shows "(s2 \<noteq> [] \<longrightarrow>
            fragments_of vid (snd (index_video fa vid s2 (snd (index_video fa vid s1 c))))
              = map (\<lambda>i. make_fragment fa vid i (s2 ! i))
                    (filter (\<lambda>i. nonblank (s2 ! i)) [0..<length s2])
            \<and> length (fragments_of vid (snd (index_video fa vid s2 (snd (index_video fa vid s1 c)))))
              = length (filter nonblank s2)
            \<and> (list_all nonblank s2 \<longrightarrow>
                 length (fragments_of vid (snd (index_video fa vid s2 (snd (index_video fa vid s1 c)))))
                   = length s2))
       \<and> (s2 = [] \<longrightarrow>
            index_video fa vid s2 (snd (index_video fa vid s1 c))
              = (Inr 0, snd (index_video fa vid s1 c)))"
proof -
  let ?c1 = "snd (index_video fa vid s1 c)"
  have ceiling1: "BATCH_SIZE \<le> max_batch_size ?c1"
    using assms(1) by simp
  have ok1: "collection_ok ?c1"
    using assms(2) by (intro written_by_store_ok written_by_store.indexed)
  have frags: "fragments_of vid (snd (index_video fa vid s2 ?c1))
                 = build_fragments fa vid (enumerate 0 s2)"
    if "s2 \<noteq> []"
    using ceiling1 ok1 that by (rule fragments_of_index_video)
  have stored: "fragments_of vid (snd (index_video fa vid s2 ?c1))
              = map (\<lambda>i. make_fragment fa vid i (s2 ! i))
                    (filter (\<lambda>i. nonblank (s2 ! i)) [0..<length s2])"
    if "s2 \<noteq> []"
    using frags [OF that] by (simp add: build_fragments_positions)
  have count: "length (fragments_of vid (snd (index_video fa vid s2 ?c1)))
                 = length (filter nonblank s2)"
    if "s2 \<noteq> []"
    using frags [OF that] by (simp add: length_build_fragments)
  have full: "length (fragments_of vid (snd (index_video fa vid s2 ?c1))) = length s2"
    if "s2 \<noteq> []" "list_all nonblank s2"
  proof -
    have "filter nonblank s2 = s2"
      using that(2) by (simp add: list_all_iff)
    with count [OF that(1)] show ?thesis by simp
  qed
  have noop: "index_video fa vid s2 ?c1 = (Inr 0, ?c1)" if "s2 = []"
    using that by (simp add: index_video_def)
  show ?thesis
    using stored count full noop by blast
qed

theorem reindex_replaces_fragments_witness:
  "BATCH_SIZE \<le> max_batch_size empty_collection \<and> written_by_store empty_collection
   \<and> list_all nonblank [seg2]
   \<and> fragments_of ''v'' (snd (index_video exact_add ''v'' [seg2]
        (snd (index_video exact_add ''v'' [seg1, seg_blank, seg2] empty_collection))))
       = [make_fragment exact_add ''v'' 0 seg2]
   \<and> length (fragments_of ''v'' (snd (index_video exact_add ''v'' [seg2]
        (snd (index_video exact_add ''v'' [seg1, seg_blank, seg2] empty_collection)))))
       = length [seg2]
   \<and> index_video exact_add ''v'' [] (snd (index_video exact_add ''v'' [seg1] empty_collection))
       = (Inr 0, snd (index_video exact_add ''v'' [seg1] empty_collection))"
proof -
  have ceiling: "BATCH_SIZE \<le> max_batch_size empty_collection"
    by (simp add: BATCH_SIZE_def empty_collection_def)
  have wellformed: "list_all nonblank [seg2]"
    by code_simp
  have positions: "filter (\<lambda>i. nonblank ([seg2] ! i)) [0..<length [seg2]] = [0]"
    by code_simp
  have second: "fragments_of ''v'' (snd (index_video exact_add ''v'' [seg2]
        (snd (index_video exact_add ''v'' [seg1, seg_blank, seg2] empty_collection))))
       = [make_fragment exact_add ''v'' 0 seg2]"
    using reindex_replaces_fragments [OF ceiling written_by_store_empty,
        where ?s2.0 = "[seg2]" and vid = "''v''" and ?s1.0 = "[seg1, seg_blank, seg2]"
          and fa = exact_add]
    unfolding positions by simp
  have noop: "index_video exact_add ''v'' []
                (snd (index_video exact_add ''v'' [seg1] empty_collection))
       = (Inr 0, snd (index_video exact_add ''v'' [seg1] empty_collection))"
    using reindex_replaces_fragments [OF ceiling written_by_store_empty,
        where ?s2.0 = "[]" and vid = "''v''" and ?s1.0 = "[seg1]" and fa = exact_add]
    by simp
  show ?thesis
    using ceiling written_by_store_empty wellformed second noop by simp
qed

end
